theory Spec2Isabelle
  imports Main "HOL-Library.Word"
begin

section \<open>Strings as the plugin reads them\<close>

text \<open>
  Document lines are \<open>string\<close>s (lists of 8-bit characters). The code's notion of
  white space is that of JavaScript's \<open>\s\<close> and \<open>trim()\<close>: tab, line feed, vertical tab,
  form feed, carriage return, space and no-break space are the members below 256.
\<close>

definition isWhite :: "char \<Rightarrow> bool" where
  "isWhite c \<longleftrightarrow>
     c = CHR 0x09 \<or> c = CHR 0x0A \<or> c = CHR 0x0B \<or> c = CHR 0x0C \<or> c = CHR 0x0D \<or>
     c = CHR 0x20 \<or> c = CHR 0xA0"

definition isDigit :: "char \<Rightarrow> bool" where
  "isDigit c \<longleftrightarrow> c \<in> set ''0123456789''"

definition trimStart :: "string \<Rightarrow> string" where
  "trimStart s = dropWhile isWhite s"

definition trimEnd :: "string \<Rightarrow> string" where
  "trimEnd s = rev (dropWhile isWhite (rev s))"

definition trim :: "string \<Rightarrow> string" where
  "trim s = trimStart (trimEnd s)"

text \<open>\<open>s.search(/\S/)\<close>: the index of the first character that is not white space, or -1.\<close>

definition searchNonWhite :: "string \<Rightarrow> int" where
  "searchNonWhite s =
     (if dropWhile isWhite s = [] then - 1 else int (length (takeWhile isWhite s)))"

text \<open>\<open>parts.join('\n')\<close>.\<close>

fun joinLines :: "string list \<Rightarrow> string" where
  "joinLines [] = []"
| "joinLines [l] = l"
| "joinLines (l # m # ls) = l @ CHR 0x0A # joinLines (m # ls)"

text \<open>A literal prefix: the rest of the string after it, when the string starts with it.\<close>

fun stripPrefix :: "string \<Rightarrow> string \<Rightarrow> string option" where
  "stripPrefix [] s = Some s"
| "stripPrefix (p # ps) [] = None"
| "stripPrefix (p # ps) (c # cs) = (if p = c then stripPrefix ps cs else None)"

text \<open>
  The leftmost match of a pattern: \<open>at\<close> tries the pattern at the head of a string and
  gives what it captured; \<open>findFirst\<close> tries every start position from left to right, as
  a regular expression search does, and returns the text before the match as well.
\<close>

fun findFirst :: "(string \<Rightarrow> 'a option) \<Rightarrow> string \<Rightarrow> (string \<times> 'a) option" where
  "findFirst at [] = (case at [] of Some r \<Rightarrow> Some ([], r) | None \<Rightarrow> None)"
| "findFirst at (c # cs) =
     (case at (c # cs) of
        Some r \<Rightarrow> Some ([], r)
      | None \<Rightarrow> (case findFirst at cs of
                  Some (pre, r) \<Rightarrow> Some (c # pre, r)
                | None \<Rightarrow> None))"

section \<open>The patterns of constants.ts\<close>

text \<open>
  \<open>MEMO_ID_PATTERN = /%%dex:(?:contact-id=([^,%)]+))?(?:,memo-id=([^,%)]+))?(?:,hash=([^,%)]+))?%%/\<close>.
  Each optional group is a key followed by a greedy, non-empty run of field characters.
  A run ends before \<open>,\<close>, \<open>%\<close>, \<open>)\<close> or the end of the text, and every continuation
  of the pattern starts with \<open>,\<close> or \<open>%\<close>, so giving characters back never helps; and a
  group whose key is at hand cannot be skipped, since the next group and the closing
  \<open>%%\<close> start differently from the key. The greedy reading below is therefore the one the
  backtracking matcher finds.
\<close>

definition isFieldChar :: "char \<Rightarrow> bool" where
  "isFieldChar c \<longleftrightarrow> c \<noteq> CHR '','' \<and> c \<noteq> CHR ''%'' \<and> c \<noteq> CHR '')''"

definition optField :: "string \<Rightarrow> string \<Rightarrow> string option \<times> string" where
  "optField key s =
     (case stripPrefix key s of
        None \<Rightarrow> (None, s)
      | Some r \<Rightarrow>
          (if takeWhile isFieldChar r = [] then (None, s)
           else (Some (takeWhile isFieldChar r), dropWhile isFieldChar r)))"

type_synonym memo_match = "string option \<times> string option \<times> string option"

definition memoIdAt :: "string \<Rightarrow> memo_match option" where
  "memoIdAt s =
     (case stripPrefix ''%%dex:'' s of
        None \<Rightarrow> None
      | Some r0 \<Rightarrow>
          (let (g1, r1) = optField ''contact-id='' r0;
               (g2, r2) = optField '',memo-id='' r1;
               (g3, r3) = optField '',hash='' r2
           in case stripPrefix ''%%'' r3 of
                None \<Rightarrow> None
              | Some _ \<Rightarrow> Some (g1, g2, g3)))"

text \<open>\<open>line.match(MEMO_ID_PATTERN)\<close>: the groups of the leftmost match, or no match.\<close>

definition matchMemoId :: "string \<Rightarrow> memo_match option" where
  "matchMemoId s = map_option snd (findFirst memoIdAt s)"

text \<open>
  \<open>MEMO_ID_CLEANUP_PATTERN = /%%dex:[^%]*%%/g\<close>. \<open>dexCommentAt\<close> matches one comment at the
  head of the text and returns what follows it; \<open>stripDexComments\<close> is
  \<open>s.replace(MEMO_ID_CLEANUP_PATTERN, '')\<close>, which removes every match from left to right.
\<close>

definition dexCommentAt :: "string \<Rightarrow> string option" where
  "dexCommentAt s =
     (case stripPrefix ''%%dex:'' s of
        None \<Rightarrow> None
      | Some r \<Rightarrow> stripPrefix ''%%'' (dropWhile (\<lambda>c. c \<noteq> CHR ''%'') r))"

lemma stripPrefix_length: "stripPrefix p s = Some r \<Longrightarrow> length r + length p = length s"
  by (induction p s rule: stripPrefix.induct) (auto split: if_splits)

lemma dexCommentAt_shorter: "dexCommentAt s = Some r \<Longrightarrow> length r < length s"
proof -
  assume a: "dexCommentAt s = Some r"
  then obtain r0 where r0: "stripPrefix ''%%dex:'' s = Some r0"
    and r1: "stripPrefix ''%%'' (dropWhile (\<lambda>c. c \<noteq> CHR ''%'') r0) = Some r"
    by (auto simp: dexCommentAt_def split: option.splits)
  have "length r0 < length s"
    using stripPrefix_length [OF r0] by simp
  moreover have "length r \<le> length (dropWhile (\<lambda>c. c \<noteq> CHR ''%'') r0)"
    using stripPrefix_length [OF r1] by simp
  moreover have "length (dropWhile (\<lambda>c. c \<noteq> CHR ''%'') r0) \<le> length r0"
    by (rule length_dropWhile_le)
  ultimately show ?thesis by simp
qed

function stripDexComments :: "string \<Rightarrow> string" where
  "stripDexComments [] = []"
| "stripDexComments (c # cs) =
     (case dexCommentAt (c # cs) of
        Some rest \<Rightarrow> stripDexComments rest
      | None \<Rightarrow> c # stripDexComments cs)"
  by pat_completeness auto
termination
  by (relation "measure length") (auto dest: dexCommentAt_shorter)

section \<open>content-block-detector.ts\<close>

text \<open>
  The line classes of the detector, each tested on the trimmed line:
  \<open>/^(\*|-|\+|\d+\.|\d+\))\s/\<close>, \<open>/^>\s/\<close> and \<open>/^#{1,6}\s/\<close>.
\<close>

definition startsWhite :: "string \<Rightarrow> bool" where
  "startsWhite s = (case s of [] \<Rightarrow> False | c # _ \<Rightarrow> isWhite c)"

definition isListItemText :: "string \<Rightarrow> bool" where
  "isListItemText s =
     (case s of
        [] \<Rightarrow> False
      | c # r \<Rightarrow>
          if c = CHR ''*'' \<or> c = CHR ''-'' \<or> c = CHR ''+'' then startsWhite r
          else takeWhile isDigit s \<noteq> [] \<and>
               (case dropWhile isDigit s of
                  [] \<Rightarrow> False
                | d # r' \<Rightarrow> (d = CHR ''.'' \<or> d = CHR '')'') \<and> startsWhite r'))"

definition isBlockquoteText :: "string \<Rightarrow> bool" where
  "isBlockquoteText s = (case s of [] \<Rightarrow> False | c # r \<Rightarrow> c = CHR ''>'' \<and> startsWhite r)"

definition isHeaderText :: "string \<Rightarrow> bool" where
  "isHeaderText s =
     (let n = length (takeWhile (\<lambda>c. c = CHR ''#'') s)
      in 1 \<le> n \<and> n \<le> 6 \<and> startsWhite (dropWhile (\<lambda>c. c = CHR ''#'') s))"

record ContentBlockResult =
  endLine :: nat
  contentLines :: "string list"
  hasExistingMemo :: bool
  memoId :: "string option"
  storedHash :: "string option"

text \<open>
  The body of the \<open>for\<close> loop of \<open>detectContentBlock\<close>, for one line: whether the line
  is taken into the block (the two branches that set \<open>endLine = i\<close>) or ends the walk (the
  three \<open>break\<close>s), in the order of the source.
\<close>

definition lineContinues :: "bool \<Rightarrow> int \<Rightarrow> string \<Rightarrow> bool" where
  "lineContinues startIsListItem startIndent currentLine =
     (if trim currentLine = [] then False
      else
        let currentIndent = searchNonWhite currentLine;
            trimmedLine = trim currentLine;
            isListItem = isListItemText trimmedLine;
            isBlockquote = isBlockquoteText trimmedLine;
            isHeader = isHeaderText trimmedLine
        in
          if startIsListItem \<and> isListItem \<and> currentIndent = startIndent then False
          else if isHeader \<and> currentIndent \<le> startIndent then False
          else
            let isIndented = currentIndent > startIndent
            in if isIndented \<or> (isBlockquote \<and> currentIndent \<ge> startIndent) then True
               else if currentIndent = startIndent \<and> \<not> isListItem \<and> \<not> isHeader then True
               else False)"

text \<open>
  The loop itself, from line \<open>i\<close> on: it carries \<open>endLine\<close> and \<open>contentLines\<close>, and every
  line taken is pushed with its Dex comments removed.
\<close>

function walkBlock ::
  "(nat \<Rightarrow> string) \<Rightarrow> nat \<Rightarrow> bool \<Rightarrow> int \<Rightarrow> nat \<Rightarrow> nat \<times> string list \<Rightarrow> nat \<times> string list"
where
  "walkBlock getLine totalLines startIsListItem startIndent i (e, ls) =
     (if i < totalLines then
        (if lineContinues startIsListItem startIndent (getLine i)
         then walkBlock getLine totalLines startIsListItem startIndent (Suc i)
                (i, ls @ [stripDexComments (getLine i)])
         else (e, ls))
      else (e, ls))"
  by pat_completeness auto
termination
  by (relation "measure (\<lambda>(getLine, totalLines, sl, si, i, acc). totalLines - i)") auto

declare walkBlock.simps [simp del]

text \<open>
  \<open>while (contentLines.length > 1 && !contentLines[contentLines.length - 1].trim())
  contentLines.pop()\<close>.
\<close>

function popTrailingEmpty :: "string list \<Rightarrow> string list" where
  "popTrailingEmpty ls =
     (if length ls > 1 \<and> trim (last ls) = [] then popTrailingEmpty (butlast ls) else ls)"
  by pat_completeness auto
termination
  by (relation "measure length") auto

declare popTrailingEmpty.simps [simp del]

definition detectContentBlock :: "(nat \<Rightarrow> string) \<Rightarrow> nat \<Rightarrow> nat \<Rightarrow> ContentBlockResult" where
  "detectContentBlock getLine totalLines startLineNum =
     (let startLine = getLine startLineNum;
          startText = trim startLine;
          startIndent = searchNonWhite startLine;
          startIsListItem = isListItemText startText;
          memoMatch = matchMemoId startLine;
          cleanStartLine = trim (stripDexComments startLine);
          (e, ls) = walkBlock getLine totalLines startIsListItem startIndent
                      (Suc startLineNum) (startLineNum, [cleanStartLine])
      in \<lparr> endLine = e,
           contentLines = popTrailingEmpty ls,
           hasExistingMemo = (case memoMatch of Some (_, Some _, _) \<Rightarrow> True | _ \<Rightarrow> False),
           memoId = (case memoMatch of Some (_, g2, _) \<Rightarrow> g2 | None \<Rightarrow> None),
           storedHash = (case memoMatch of Some (_, _, g3) \<Rightarrow> g3 | None \<Rightarrow> None) \<rparr>)"

section \<open>content-hash.ts\<close>

text \<open>
  \<open>simpleHash\<close> keeps a 32-bit signed accumulator: \<open>hash = ((hash << 5) - hash) + char\<close>
  followed by \<open>hash & hash\<close>, which wraps the sum to 32 bits; the token is
  \<open>Math.abs(hash).toString(36)\<close>.
\<close>

definition hashStep :: "32 word \<Rightarrow> char \<Rightarrow> 32 word" where
  "hashStep h c = (push_bit 5 h - h) + of_nat (of_char c)"

definition digit36 :: "int \<Rightarrow> char" where
  "digit36 d = ''0123456789abcdefghijklmnopqrstuvwxyz'' ! nat d"

function toString36 :: "int \<Rightarrow> string" where
  "toString36 n = (if n < 36 then [digit36 n] else toString36 (n div 36) @ [digit36 (n mod 36)])"
  by pat_completeness auto
termination
  by (relation "measure nat") auto

declare toString36.simps [simp del]

definition simpleHash :: "string \<Rightarrow> string" where
  "simpleHash str = toString36 \<bar>sint (foldl hashStep 0 str)\<bar>"

definition cleanContentForHashing :: "string \<Rightarrow> string" where
  "cleanContentForHashing content = trim (stripDexComments content)"

section \<open>content-processor.ts\<close>

text \<open>
  The editor is the list of its lines; \<open>editor.getLine(n)\<close> is \<open>editor ! n\<close> and is only
  evaluated for \<open>n\<close> below \<open>editor.lineCount()\<close>.
\<close>

type_synonym editor = "string list"

record ContentBlock =
  block_content :: string
  block_endLine :: nat
  block_hasExistingMemo :: bool
  block_memoId :: "string option"

definition getContentBlock :: "editor \<Rightarrow> nat \<Rightarrow> ContentBlock" where
  "getContentBlock editor startLineNumber =
     (let totalLines = length editor;
          result = detectContentBlock (\<lambda>lineNum. editor ! lineNum) totalLines startLineNumber
      in \<lparr> block_content = joinLines (contentLines result),
           block_endLine = endLine result,
           block_hasExistingMemo = hasExistingMemo result,
           block_memoId = memoId result \<rparr>)"

section \<open>memo-manager.ts\<close>

text \<open>
  The patterns that \<open>syncContactMemo\<close> builds around \<open>contact.id\<close> carry the flag \<open>i\<close>:
  their literal parts match up to letter case. \<open>canon\<close> is the upper-case mapping on
  8-bit characters. The id is spliced into the pattern and into the replacement text
  as it is; the matchers below read it as literal text, which is what the code does for
  an id made of letters, digits, \<open>-\<close> and \<open>_\<close> (\<open>plainId\<close>; Dex ids are UUIDs).
\<close>

definition lowerChars :: string where
  "lowerChars = ''abcdefghijklmnopqrstuvwxyz'' @
     [CHR 0xE0, CHR 0xE1, CHR 0xE2, CHR 0xE3, CHR 0xE4, CHR 0xE5, CHR 0xE6, CHR 0xE7,
      CHR 0xE8, CHR 0xE9, CHR 0xEA, CHR 0xEB, CHR 0xEC, CHR 0xED, CHR 0xEE, CHR 0xEF,
      CHR 0xF0, CHR 0xF1, CHR 0xF2, CHR 0xF3, CHR 0xF4, CHR 0xF5, CHR 0xF6, CHR 0xF8,
      CHR 0xF9, CHR 0xFA, CHR 0xFB, CHR 0xFC, CHR 0xFD, CHR 0xFE]"

definition upperChars :: string where
  "upperChars = ''ABCDEFGHIJKLMNOPQRSTUVWXYZ'' @
     [CHR 0xC0, CHR 0xC1, CHR 0xC2, CHR 0xC3, CHR 0xC4, CHR 0xC5, CHR 0xC6, CHR 0xC7,
      CHR 0xC8, CHR 0xC9, CHR 0xCA, CHR 0xCB, CHR 0xCC, CHR 0xCD, CHR 0xCE, CHR 0xCF,
      CHR 0xD0, CHR 0xD1, CHR 0xD2, CHR 0xD3, CHR 0xD4, CHR 0xD5, CHR 0xD6, CHR 0xD8,
      CHR 0xD9, CHR 0xDA, CHR 0xDB, CHR 0xDC, CHR 0xDD, CHR 0xDE]"

definition canon :: "char \<Rightarrow> char" where
  "canon c = (case map_of (zip lowerChars upperChars) c of Some u \<Rightarrow> u | None \<Rightarrow> c)"

definition isIdChar :: "char \<Rightarrow> bool" where
  "isIdChar c \<longleftrightarrow>
     c \<in> set ''0123456789ABCDEFGHIJKLMNOPQRSTUVWXYZabcdefghijklmnopqrstuvwxyz-_''"

definition plainId :: "string \<Rightarrow> bool" where
  "plainId s \<longleftrightarrow> s \<noteq> [] \<and> list_all isIdChar s"

text \<open>A literal prefix up to letter case: the text it matched and the rest.\<close>

fun ciPrefix :: "string \<Rightarrow> string \<Rightarrow> (string \<times> string) option" where
  "ciPrefix [] s = Some ([], s)"
| "ciPrefix (p # ps) [] = None"
| "ciPrefix (p # ps) (c # cs) =
     (if canon p = canon c
      then (case ciPrefix ps cs of Some (m, r) \<Rightarrow> Some (c # m, r) | None \<Rightarrow> None)
      else None)"

text \<open>
  \<open>(\[[^\]]*\]\(https:\/\/getdex\.com\/appv3\/contacts\/details\/${contact.id}\))\<close>:
  the link text runs to the first \<open>]\<close>. The result is group 1 and the text after it.
\<close>

definition dexUrlLinkAt :: "string \<Rightarrow> string \<Rightarrow> (string \<times> string) option" where
  "dexUrlLinkAt cid s =
     (case s of
        [] \<Rightarrow> None
      | c # r \<Rightarrow>
          if c \<noteq> CHR ''['' then None
          else (case ciPrefix (''](https://getdex.com/appv3/contacts/details/'' @ cid @ '')'')
                       (dropWhile (\<lambda>c. c \<noteq> CHR '']'') r) of
                  None \<Rightarrow> None
                | Some (m, rest) \<Rightarrow> Some (c # takeWhile (\<lambda>c. c \<noteq> CHR '']'') r @ m, rest)))"

text \<open>\<open>(\[\[[^\]]+\]\])\<close>.\<close>

definition vaultLinkAt :: "string \<Rightarrow> (string \<times> string) option" where
  "vaultLinkAt s =
     (case stripPrefix ''[['' s of
        None \<Rightarrow> None
      | Some r \<Rightarrow>
          if takeWhile (\<lambda>c. c \<noteq> CHR '']'') r = [] then None
          else (case stripPrefix '']]'' (dropWhile (\<lambda>c. c \<noteq> CHR '']'') r) of
                  None \<Rightarrow> None
                | Some rest \<Rightarrow> Some (''[['' @ takeWhile (\<lambda>c. c \<noteq> CHR '']'') r @ '']]'', rest)))"

text \<open>
  \<open>%%dex:[^%]*%%\<close> and \<open>%%dex:contact-id=${contact.id}(?:,[^%]*)?%%\<close>, both up to
  letter case: the text after the comment.
\<close>

definition ciDexCommentAt :: "string \<Rightarrow> string option" where
  "ciDexCommentAt s =
     (case ciPrefix ''%%dex:'' s of
        None \<Rightarrow> None
      | Some (_, r) \<Rightarrow> stripPrefix ''%%'' (dropWhile (\<lambda>c. c \<noteq> CHR ''%'') r))"

definition ownCommentAt :: "string \<Rightarrow> string \<Rightarrow> string option" where
  "ownCommentAt cid s =
     (case ciPrefix (''%%dex:contact-id='' @ cid) s of
        None \<Rightarrow> None
      | Some (_, r) \<Rightarrow>
          (case r of
             [] \<Rightarrow> None
           | c # r' \<Rightarrow>
               if c = CHR '','' then stripPrefix ''%%'' (dropWhile (\<lambda>c. c \<noteq> CHR ''%'') r')
               else stripPrefix ''%%'' r))"

text \<open>
  \<open>dexUrlWithComment\<close> and \<open>vaultLinkWithComment\<close>: the link (group 1), white space, the
  comment, and the white space after it (group 2). The result is group 1, group 2 and
  the text after the match.
\<close>

definition dexUrlWithCommentAt :: "string \<Rightarrow> string \<Rightarrow> (string \<times> string \<times> string) option" where
  "dexUrlWithCommentAt cid s =
     (case dexUrlLinkAt cid s of
        None \<Rightarrow> None
      | Some (g1, r) \<Rightarrow>
          (case ciDexCommentAt (dropWhile isWhite r) of
             None \<Rightarrow> None
           | Some r' \<Rightarrow> Some (g1, takeWhile isWhite r', dropWhile isWhite r')))"

definition vaultLinkWithCommentAt :: "string \<Rightarrow> string \<Rightarrow> (string \<times> string \<times> string) option" where
  "vaultLinkWithCommentAt cid s =
     (case vaultLinkAt s of
        None \<Rightarrow> None
      | Some (g1, r) \<Rightarrow>
          (case ownCommentAt cid (dropWhile isWhite r) of
             None \<Rightarrow> None
           | Some r' \<Rightarrow> Some (g1, takeWhile isWhite r', dropWhile isWhite r')))"

text \<open>The comment that a sync writes: \<open>%%dex:contact-id=X,memo-id=Y,hash=Z%%\<close>.\<close>

definition dexComment :: "string \<Rightarrow> string \<Rightarrow> string \<Rightarrow> string" where
  "dexComment cid mid h =
     ''%%dex:contact-id='' @ cid @ '',memo-id='' @ mid @ '',hash='' @ h @ ''%%''"

text \<open>
  The rewrite of the start line: the four patterns are tried in the order of the
  source, and the first one that matches replaces its leftmost match. With a comment
  the replacement is \<open>$1<comment>$2\<close>; without one it is \<open>$1<comment>\<close> and a space.
\<close>

definition rewriteLine :: "string \<Rightarrow> string \<Rightarrow> string \<Rightarrow> string \<Rightarrow> string" where
  "rewriteLine cid mid h startLine =
     (case findFirst (dexUrlWithCommentAt cid) startLine of
        Some (pre, g1, g2, post) \<Rightarrow> pre @ g1 @ dexComment cid mid h @ g2 @ post
      | None \<Rightarrow>
     (case findFirst (vaultLinkWithCommentAt cid) startLine of
        Some (pre, g1, g2, post) \<Rightarrow> pre @ g1 @ dexComment cid mid h @ g2 @ post
      | None \<Rightarrow>
     (case findFirst (dexUrlLinkAt cid) startLine of
        Some (pre, g1, post) \<Rightarrow> pre @ g1 @ dexComment cid mid h @ '' '' @ post
      | None \<Rightarrow>
     (case findFirst vaultLinkAt startLine of
        Some (pre, g1, post) \<Rightarrow> pre @ g1 @ dexComment cid mid h @ '' '' @ post
      | None \<Rightarrow> startLine))))"

text \<open>\<open>lastLine.match(/data-hash="([^"]*)"/)\<close>: group 1 of the leftmost match.\<close>

definition dataHashAt :: "string \<Rightarrow> string option" where
  "dataHashAt s =
     (case stripPrefix (''data-hash='' @ [CHR 0x22]) s of
        None \<Rightarrow> None
      | Some r \<Rightarrow>
          (case dropWhile (\<lambda>c. c \<noteq> CHR 0x22) r of
             [] \<Rightarrow> None
           | _ # _ \<Rightarrow> Some (takeWhile (\<lambda>c. c \<noteq> CHR 0x22) r)))"

definition matchDataHash :: "string \<Rightarrow> string option" where
  "matchDataHash s = map_option snd (findFirst dataHashAt s)"

text \<open>
  The remote service is a pair of functions from the arguments of a call to its
  answer: \<open>Inl msg\<close> is the rejected promise (the error thrown at the \<open>await\<close>), \<open>Inr\<close> the
  resolved result. The memo text is the configured template filled in (date, title,
  converted content, link back); it is a function of the block's content given by the
  context.
\<close>

record NoteResult =
  note_id :: string
  note_success :: bool
  note_wasUpdated :: bool

record DexApiClient =
  createNote :: "string \<Rightarrow> string \<Rightarrow> string + NoteResult"
  updateNote :: "string \<Rightarrow> string \<Rightarrow> string \<Rightarrow> string + NoteResult"

record PluginContext =
  apiClient :: "DexApiClient option"
  renderMemo :: "string \<Rightarrow> string"

record ProcessedContact =
  contact_id :: string
  contact_name :: string

datatype sync_error = ApiClientNotInitialized | LineOutOfRange | RemoteError string

datatype remote_call = CreateNoteCall string string | UpdateNoteCall string string string

datatype notice = CreatedNotice string | UpdatedNotice string

text \<open>
  What one call of \<open>syncContactMemo\<close> leaves behind: the value it returns or the error it
  throws, the editor's lines, the remote calls it made and the notices it showed.
\<close>

record SyncResult =
  outcome :: "sync_error + string"
  document :: editor
  remoteCalls :: "remote_call list"
  notices :: "notice list"

text \<open>The \<open>await\<close> of one remote call: the answer of the service to it.\<close>

definition performCall :: "DexApiClient \<Rightarrow> remote_call \<Rightarrow> string + NoteResult" where
  "performCall api call =
     (case call of
        CreateNoteCall contactId content \<Rightarrow> createNote api contactId content
      | UpdateNoteCall noteId contactId content \<Rightarrow> updateNote api noteId contactId content)"

definition startsWith :: "string \<Rightarrow> string \<Rightarrow> bool" where
  "startsWith s p \<longleftrightarrow> stripPrefix p s \<noteq> None"

text \<open>
  The check at the top of \<open>syncContactMemo\<close> that skips the sync: the stored hash is
  looked up as \<open>data-hash="..."\<close> on the last line of the block.
\<close>

definition contentUnchanged :: "editor \<Rightarrow> ContentBlock \<Rightarrow> bool" where
  "contentUnchanged editor block =
     (block_hasExistingMemo block \<and> block_memoId block \<noteq> None \<and>
      (let lastLine = editor ! block_endLine block;
           storedHash = matchDataHash lastLine;
           contentForHash = trim (stripDexComments (block_content block));
           currentHash = simpleHash contentForHash
       in case storedHash of None \<Rightarrow> False | Some h \<Rightarrow> h \<noteq> [] \<and> h = currentHash))"

definition syncContactMemo ::
  "PluginContext \<Rightarrow> ProcessedContact \<Rightarrow> nat \<Rightarrow> editor \<Rightarrow> bool \<Rightarrow> SyncResult" where
  "syncContactMemo ctx contact lineNumber editor silent =
     (case apiClient ctx of
        None \<Rightarrow> \<lparr> outcome = Inl ApiClientNotInitialized, document = editor,
                  remoteCalls = [], notices = [] \<rparr>
      | Some api \<Rightarrow>
     (if lineNumber \<ge> length editor
      then \<lparr> outcome = Inl LineOutOfRange, document = editor, remoteCalls = [], notices = [] \<rparr>
      else
        let block = getContentBlock editor lineNumber;
            fullContent = block_content block;
            existingMemoId = block_memoId block
        in
          if contentUnchanged editor block
          then \<lparr> outcome = Inr (the existingMemoId), document = editor,
                 remoteCalls = [], notices = [] \<rparr>
          else
            let isFakeMemoId = (case existingMemoId of None \<Rightarrow> False
                                | Some m \<Rightarrow> startsWith m ''memo_'');
                memoContent = renderMemo ctx fullContent;
                isUpdate = (existingMemoId \<noteq> None \<and> \<not> isFakeMemoId);
                call = (if isUpdate
                        then UpdateNoteCall (the existingMemoId) (contact_id contact) memoContent
                        else CreateNoteCall (contact_id contact) memoContent);
                response = performCall api call
            in
              case response of
                Inl msg \<Rightarrow> \<lparr> outcome = Inl (RemoteError msg), document = editor,
                             remoteCalls = [call], notices = [] \<rparr>
              | Inr result \<Rightarrow>
                  let contentForHash = trim (stripDexComments fullContent);
                      contentHash = simpleHash contentForHash;
                      startLine = editor ! lineNumber;
                      updatedLine = rewriteLine (contact_id contact) (note_id result)
                                      contentHash startLine;
                      wasCreated = (existingMemoId = None \<or> isFakeMemoId \<or>
                                    \<not> note_wasUpdated result)
                  in \<lparr> outcome = Inr (note_id result),
                       document = (if updatedLine \<noteq> startLine
                                   then editor[lineNumber := updatedLine] else editor),
                       remoteCalls = [call],
                       notices = (if silent then []
                                  else if wasCreated then [CreatedNotice (contact_name contact)]
                                  else [UpdatedNotice (contact_name contact)]) \<rparr>))"

section \<open>codemirror-extension.ts: the status of the inline sync button\<close>

datatype SyncStatus = NotSynced | Synced | NeedsResync

record BlockEnd =
  be_endLine :: nat
  be_hasExistingMemo :: bool
  be_syncStatus :: SyncStatus
  be_contentHash :: string

definition syncStatusOf :: "ContentBlockResult \<Rightarrow> string \<Rightarrow> SyncStatus" where
  "syncStatusOf result contentHash =
     (if \<not> hasExistingMemo result then NotSynced
      else if storedHash result = None then NeedsResync
      else if storedHash result = Some contentHash then Synced
      else NeedsResync)"

text \<open>
  \<open>findContentBlockEnd(doc, startLineNum)\<close> takes a 1-indexed line of the document and
  answers in 1-indexed lines; \<open>doc.line\<close> raises outside the document, which is \<open>None\<close>.
\<close>

definition findContentBlockEnd :: "string list \<Rightarrow> nat \<Rightarrow> BlockEnd option" where
  "findContentBlockEnd doc startLineNum =
     (if startLineNum < 1 \<or> startLineNum > length doc then None
      else
        let result = detectContentBlock (\<lambda>lineNum. doc ! lineNum) (length doc) (startLineNum - 1);
            blockContent = joinLines (contentLines result);
            contentHash = simpleHash (trim blockContent)
        in Some \<lparr> be_endLine = endLine result + 1,
                  be_hasExistingMemo = hasExistingMemo result,
                  be_syncStatus = syncStatusOf result contentHash,
                  be_contentHash = contentHash \<rparr>)"

section \<open>main.ts: the memo counter of the status bar\<close>

text \<open>
  The two link tests of \<open>countMemos\<close>:
  \<open>/\[([^\]]*)\]\(https:\/\/getdex\.com\/appv3\/contacts\/details\/([^)]+)\)/\<close> and
  \<open>/\[\[([^\]|]+)(?:\|([^\]]+))?\]\]/\<close>.
\<close>

definition anyDexUrlLinkAt :: "string \<Rightarrow> (string \<times> string) option" where
  "anyDexUrlLinkAt s =
     (case s of
        [] \<Rightarrow> None
      | c # r \<Rightarrow>
          if c \<noteq> CHR ''['' then None
          else (case stripPrefix ''](https://getdex.com/appv3/contacts/details/''
                       (dropWhile (\<lambda>c. c \<noteq> CHR '']'') r) of
                  None \<Rightarrow> None
                | Some r1 \<Rightarrow>
                    if takeWhile (\<lambda>c. c \<noteq> CHR '')'') r1 = [] then None
                    else (case dropWhile (\<lambda>c. c \<noteq> CHR '')'') r1 of
                            [] \<Rightarrow> None
                          | _ # _ \<Rightarrow> Some (takeWhile (\<lambda>c. c \<noteq> CHR '']'') r,
                                          takeWhile (\<lambda>c. c \<noteq> CHR '')'') r1))))"

definition anyVaultLinkAt :: "string \<Rightarrow> (string \<times> string option) option" where
  "anyVaultLinkAt s =
     (case stripPrefix ''[['' s of
        None \<Rightarrow> None
      | Some r \<Rightarrow>
          let path = takeWhile (\<lambda>c. c \<noteq> CHR '']'' \<and> c \<noteq> CHR ''|'') r;
              r1 = dropWhile (\<lambda>c. c \<noteq> CHR '']'' \<and> c \<noteq> CHR ''|'') r
          in if path = [] then None
             else (case r1 of
                     [] \<Rightarrow> None
                   | c # r2 \<Rightarrow>
                       if c = CHR ''|'' then
                         (if takeWhile (\<lambda>c. c \<noteq> CHR '']'') r2 = [] then None
                          else (case stripPrefix '']]'' (dropWhile (\<lambda>c. c \<noteq> CHR '']'') r2) of
                                  None \<Rightarrow> None
                                | Some _ \<Rightarrow> Some (path, Some (takeWhile (\<lambda>c. c \<noteq> CHR '']'') r2))))
                       else (case stripPrefix '']]'' r1 of
                               None \<Rightarrow> None
                             | Some _ \<Rightarrow> Some (path, None))))"

definition isTrackedLine :: "string \<Rightarrow> bool" where
  "isTrackedLine line =
     (let hasDexComment = (findFirst memoIdAt line \<noteq> None);
          hasDexUrlLink = (findFirst anyDexUrlLinkAt line \<noteq> None);
          hasVaultLink = (findFirst anyVaultLinkAt line \<noteq> None)
      in hasDexComment \<and> (hasDexUrlLink \<or> hasVaultLink))"

text \<open>
  Whether \<open>countMemos\<close> adds the block that starts at line \<open>i\<close> to \<open>syncedCount\<close>: the
  body of \<open>if (contentBlock.hasExistingMemo)\<close>, where a missing hash reads as the empty
  string.
\<close>

definition countsAsSynced :: "editor \<Rightarrow> nat \<Rightarrow> bool" where
  "countsAsSynced editor i =
     (let contentBlock = getContentBlock editor i
      in block_hasExistingMemo contentBlock \<and>
         (case matchMemoId (editor ! i) of
            None \<Rightarrow> False
          | Some (_, _, g3) \<Rightarrow>
              let storedHash = (case g3 of None \<Rightarrow> [] | Some h \<Rightarrow> h);
                  contentForHash = trim (stripDexComments (block_content contentBlock));
                  currentHash = simpleHash contentForHash
              in storedHash = [] \<or> storedHash = currentHash))"

lemma walkBlock_endLine_ge:
  "e \<ge> s \<Longrightarrow> i > s \<Longrightarrow> fst (walkBlock getLine totalLines sl si i (e, ls)) \<ge> s"
proof (induction getLine totalLines sl si i "(e, ls)" arbitrary: e ls rule: walkBlock.induct)
  case (1 getLine totalLines sl si i e ls)
  show ?case
  proof (cases "i < totalLines \<and> lineContinues sl si (getLine i)")
    case True
    then have "walkBlock getLine totalLines sl si i (e, ls) =
               walkBlock getLine totalLines sl si (Suc i) (i, ls @ [stripDexComments (getLine i)])"
      by (subst walkBlock.simps) simp
    moreover have "s \<le> fst (walkBlock getLine totalLines sl si (Suc i)
                               (i, ls @ [stripDexComments (getLine i)]))"
      using True "1.prems" by (intro "1.hyps") auto
    ultimately show ?thesis by simp
  next
    case False
    then have "walkBlock getLine totalLines sl si i (e, ls) = (e, ls)"
      by (subst walkBlock.simps) auto
    then show ?thesis using "1.prems" by simp
  qed
qed

lemma getContentBlock_endLine_ge: "block_endLine (getContentBlock editor i) \<ge> i"
proof -
  have "fst (walkBlock getLine totalLines sl si (Suc i) (i, ls)) \<ge> i"
    for getLine totalLines sl si ls
    by (rule walkBlock_endLine_ge) simp_all
  then show ?thesis
    by (simp add: getContentBlock_def detectContentBlock_def Let_def split: prod.splits)
       (metis fst_conv)
qed

text \<open>
  The loop of \<open>countMemos\<close> from line \<open>i\<close> on, carrying \<open>(syncedCount, totalCount)\<close>; after
  a tracked block it continues behind the block's last line.
\<close>

function countMemosFrom :: "editor \<Rightarrow> nat \<Rightarrow> nat \<times> nat \<Rightarrow> nat \<times> nat" where
  "countMemosFrom editor i (syncedCount, totalCount) =
     (if i < length editor then
        (if isTrackedLine (editor ! i)
         then countMemosFrom editor (Suc (block_endLine (getContentBlock editor i)))
                (if countsAsSynced editor i then Suc syncedCount else syncedCount,
                 Suc totalCount)
         else countMemosFrom editor (Suc i) (syncedCount, totalCount))
      else (syncedCount, totalCount))"
  by pat_completeness auto
termination
proof (relation "measure (\<lambda>(editor, i, acc). length editor - i)", goal_cases)
  case 1
  show ?case by simp
next
  case (2 editor i syncedCount totalCount)
  then show ?case
    using getContentBlock_endLine_ge [of i editor] by simp
next
  case (3 editor i syncedCount totalCount)
  then show ?case by simp
qed

declare countMemosFrom.simps [simp del]

definition countMemos :: "editor \<Rightarrow> nat \<times> nat" where
  "countMemos editor = countMemosFrom editor 0 (0, 0)"

section \<open>The sync-state classifier as the specification words it\<close>

text \<open>
  The four rules, in order: no memo id gives not-synced; a memo id without a stored hash
  gives needs-resync; a stored hash equal to the current one gives synced; anything else
  gives needs-resync.
\<close>

definition classify :: "bool \<Rightarrow> string option \<Rightarrow> string option \<Rightarrow> string \<Rightarrow> SyncStatus" where
  "classify hasAnnotation memo stored current =
     (if \<not> hasAnnotation \<or> memo = None then NotSynced
      else if stored = None then NeedsResync
      else if stored = Some current then Synced
      else NeedsResync)"

section \<open>The block boundary as the specification words it\<close>

text \<open>
  A line after the start line belongs to the block when it is not blank and is either
  more indented than the start line or at the same indentation and neither a list item
  nor a header. The walk ends at a blank line, at a list item with the indentation of a
  list-item start line, at a header at the same or a lesser indentation, and at any
  other line at the same or a lesser indentation that is not such a continuation.
\<close>

definition specIncluded :: "int \<Rightarrow> string \<Rightarrow> bool" where
  "specIncluded startIndent l \<longleftrightarrow>
     trim l \<noteq> [] \<and>
     (searchNonWhite l > startIndent \<or>
      (searchNonWhite l = startIndent \<and> \<not> isListItemText (trim l) \<and> \<not> isHeaderText (trim l)))"

definition specStops :: "bool \<Rightarrow> int \<Rightarrow> string \<Rightarrow> bool" where
  "specStops startIsListItem startIndent l \<longleftrightarrow>
     trim l = [] \<or>
     (startIsListItem \<and> isListItemText (trim l) \<and> searchNonWhite l = startIndent) \<or>
     (isHeaderText (trim l) \<and> searchNonWhite l \<le> startIndent) \<or>
     (searchNonWhite l \<le> startIndent \<and>
      \<not> (searchNonWhite l = startIndent \<and> \<not> isListItemText (trim l) \<and> \<not> isHeaderText (trim l)))"

section \<open>The remote call of one sync\<close>

text \<open>
  The call that \<open>syncContactMemo\<close> makes for a block once it has decided to sync: an
  update of the stored memo when the start line carries a memo id that is not a local
  placeholder (\<open>memo_...\<close>), a create otherwise.
\<close>

definition plannedCall :: "PluginContext \<Rightarrow> ProcessedContact \<Rightarrow> ContentBlock \<Rightarrow> remote_call" where
  "plannedCall ctx contact block =
     (case block_memoId block of
        None \<Rightarrow> CreateNoteCall (contact_id contact) (renderMemo ctx (block_content block))
      | Some m \<Rightarrow>
          if startsWith m ''memo_''
          then CreateNoteCall (contact_id contact) (renderMemo ctx (block_content block))
          else UpdateNoteCall m (contact_id contact) (renderMemo ctx (block_content block)))"

section \<open>Where a sync writes its comment\<close>

text \<open>
  \<open>annotationSite\<close> follows the four patterns of the rewrite and names the pieces of the
  start line: the text up to the end of the link that was located, the white space and
  comment that the rewrite removes (empty when it inserts), and the text that follows
  the new comment (it begins with the inserted space when the rewrite inserts).
\<close>

definition annotationSite :: "string \<Rightarrow> string \<Rightarrow> (string \<times> string \<times> string) option" where
  "annotationSite cid line =
     (case findFirst (dexUrlWithCommentAt cid) line of
        Some (pre, g1, g2, post) \<Rightarrow>
          Some (pre @ g1,
                take (length line - length (pre @ g1) - length (g2 @ post))
                  (drop (length (pre @ g1)) line),
                g2 @ post)
      | None \<Rightarrow>
     (case findFirst (vaultLinkWithCommentAt cid) line of
        Some (pre, g1, g2, post) \<Rightarrow>
          Some (pre @ g1,
                take (length line - length (pre @ g1) - length (g2 @ post))
                  (drop (length (pre @ g1)) line),
                g2 @ post)
      | None \<Rightarrow>
     (case findFirst (dexUrlLinkAt cid) line of
        Some (pre, g1, post) \<Rightarrow> Some (pre @ g1, [], '' '' @ post)
      | None \<Rightarrow>
     (case findFirst vaultLinkAt line of
        Some (pre, g1, post) \<Rightarrow> Some (pre @ g1, [], '' '' @ post)
      | None \<Rightarrow> None))))"

text \<open>Whether a text contains \<open>%%\<close>, the marker that every Dex comment starts with.\<close>

fun hasDoublePercent :: "string \<Rightarrow> bool" where
  "hasDoublePercent (a # b # r) = ((a = CHR ''%'' \<and> b = CHR ''%'') \<or> hasDoublePercent (b # r))"
| "hasDoublePercent [a] = False"
| "hasDoublePercent [] = False"

text \<open>
  A Dex comment with any subset of its three fields, in the written order:
  \<open>%%dex:\<close>, then \<open>contact-id=X\<close>, \<open>,memo-id=Y\<close> and \<open>,hash=Z\<close> for the fields that are
  present, then \<open>%%\<close>. A field value is well-formed when it is not empty and has none of
  the characters \<open>,\<close>, \<open>%\<close> and \<open>)\<close>.
\<close>

definition commentWith :: "string option \<Rightarrow> string option \<Rightarrow> string option \<Rightarrow> string" where
  "commentWith c m h =
     ''%%dex:'' @ (case c of None \<Rightarrow> [] | Some x \<Rightarrow> ''contact-id='' @ x) @
     (case m of None \<Rightarrow> [] | Some y \<Rightarrow> '',memo-id='' @ y) @
     (case h of None \<Rightarrow> [] | Some z \<Rightarrow> '',hash='' @ z) @ ''%%''"

definition validField :: "string \<Rightarrow> bool" where
  "validField v \<longleftrightarrow> v \<noteq> [] \<and> list_all isFieldChar v"

section \<open>A remote service and a document to run the code on\<close>

text \<open>
  \<open>acceptingApi\<close> answers every create with the id \<open>m1\<close> and every update with the id it
  was given; \<open>failingApi\<close> rejects every call. The context renders a memo as the block's
  content itself.
\<close>

definition acceptingApi :: DexApiClient where
  "acceptingApi =
     \<lparr> createNote = (\<lambda>contactId content.
          Inr \<lparr> note_id = ''m1'', note_success = True, note_wasUpdated = False \<rparr>),
       updateNote = (\<lambda>noteId contactId content.
          Inr \<lparr> note_id = noteId, note_success = True, note_wasUpdated = True \<rparr>) \<rparr>"

definition failingApi :: DexApiClient where
  "failingApi =
     \<lparr> createNote = (\<lambda>contactId content. Inl ''Dex API error: 500''),
       updateNote = (\<lambda>noteId contactId content. Inl ''Dex API error: 500'') \<rparr>"

definition contextWith :: "DexApiClient \<Rightarrow> PluginContext" where
  "contextWith api = \<lparr> apiClient = Some api, renderMemo = (\<lambda>content. content) \<rparr>"

definition jane :: ProcessedContact where
  "jane = \<lparr> contact_id = ''c1'', contact_name = ''Jane Doe'' \<rparr>"

text \<open>
  A mention as the plugin inserts it (link and comment with the contact id), with a
  note below; and the same document after its first sync.
\<close>

definition freshDoc :: editor where
  "freshDoc =
     [''Met [Jane Doe](https://getdex.com/appv3/contacts/details/c1)%%dex:contact-id=c1%% today'',
      ''  discussed Q3 budget'']"

definition syncedDoc :: editor where
  "syncedDoc =
     [''Met [Jane Doe](https://getdex.com/appv3/contacts/details/c1)%%dex:contact-id=c1,memo-id=m1,hash=fgt8bi%% today'',
      ''  discussed Q3 budget'']"

text \<open>A mention whose comment has a memo id and no hash, as older versions wrote it.\<close>

definition legacyDoc :: editor where
  "legacyDoc = [''[[Jane Doe]]%%dex:contact-id=c1,memo-id=m1%%'']"


text \<open>A line that names the contact without any link.\<close>

definition plainDoc :: editor where
  "plainDoc = [''Met Jane Doe today'', ''  discussed Q3 budget'']"


text \<open>A line on which the contact's mention is the second one.\<close>

definition secondMentionDoc :: editor where
  "secondMentionDoc =
     [''[[Bob]]%%dex:contact-id=b1,memo-id=mb,hash=hb%% [Jane Doe](https://getdex.com/appv3/contacts/details/c1)%%dex:contact-id=c1%%'']"



section \<open>Properties of the block detector\<close>

lemma blockquote_not_list: "isBlockquoteText t \<Longrightarrow> \<not> isListItemText t"
proof (cases t)
  case Nil
  then show ?thesis by (simp add: isListItemText_def)
next
  case (Cons c r)
  assume "isBlockquoteText t"
  with Cons have "c = CHR ''>''" by (simp add: isBlockquoteText_def)
  with Cons show ?thesis by (simp add: isListItemText_def isDigit_def)
qed

lemma blockquote_not_header: "isBlockquoteText t \<Longrightarrow> \<not> isHeaderText t"
proof (cases t)
  case Nil
  then show ?thesis by (simp add: isHeaderText_def)
next
  case (Cons c r)
  assume "isBlockquoteText t"
  with Cons have "c = CHR ''>''" by (simp add: isBlockquoteText_def)
  with Cons show ?thesis by (simp add: isHeaderText_def)
qed

lemma walk_decision:
  fixes ci si :: int
  assumes "bq \<Longrightarrow> \<not> li" "bq \<Longrightarrow> \<not> h"
  shows "(if blank then False
          else if sl \<and> li \<and> ci = si then False
          else if h \<and> ci \<le> si then False
          else if ci > si \<or> (bq \<and> ci \<ge> si) then True
          else if ci = si \<and> \<not> li \<and> \<not> h then True
          else False) \<longleftrightarrow>
         (\<not> blank \<and> (ci > si \<or> (ci = si \<and> \<not> li \<and> \<not> h)))"
  using assms by auto

lemma stop_decision:
  fixes ci si :: int
  shows "(\<not> (\<not> blank \<and> (ci > si \<or> (ci = si \<and> \<not> li \<and> \<not> h)))) \<longleftrightarrow>
         (blank \<or> (sl \<and> li \<and> ci = si) \<or> (h \<and> ci \<le> si) \<or>
          (ci \<le> si \<and> \<not> (ci = si \<and> \<not> li \<and> \<not> h)))"
  by auto

lemma lineContinues_iff_included:
  "lineContinues sl si l \<longleftrightarrow> specIncluded si l"
  unfolding lineContinues_def specIncluded_def Let_def
  by (rule walk_decision) (auto dest: blockquote_not_list blockquote_not_header)

lemma not_lineContinues_iff_stops:
  "\<not> lineContinues sl si l \<longleftrightarrow> specStops sl si l"
  unfolding lineContinues_iff_included specIncluded_def specStops_def
  by (rule stop_decision)

lemma walkBlock_boundary:
  "s \<le> e \<Longrightarrow> e < i \<Longrightarrow>
   (\<forall>j. e < j \<and> j < i \<longrightarrow> False) \<Longrightarrow>
   (let e' = fst (walkBlock getLine totalLines sl si i (e, ls))
    in e \<le> e' \<and>
       (\<forall>j. e < j \<and> j \<le> e' \<longrightarrow> j < totalLines \<and> lineContinues sl si (getLine j)) \<and>
       (Suc e' < totalLines \<longrightarrow> \<not> lineContinues sl si (getLine (Suc e'))))"
proof (induction getLine totalLines sl si i "(e, ls)" arbitrary: e ls rule: walkBlock.induct)
  case (1 getLine totalLines sl si i e ls)
  have ei: "i = Suc e" using "1.prems" by (metis Suc_lessI lessI less_Suc_eq not_less_eq)
  show ?case
  proof (cases "i < totalLines \<and> lineContinues sl si (getLine i)")
    case True
    then have eq: "walkBlock getLine totalLines sl si i (e, ls) =
               walkBlock getLine totalLines sl si (Suc i) (i, ls @ [stripDexComments (getLine i)])"
      by (subst walkBlock.simps) simp
    have ih: "let e' = fst (walkBlock getLine totalLines sl si (Suc i)
                               (i, ls @ [stripDexComments (getLine i)]))
       in i \<le> e' \<and>
       (\<forall>j. i < j \<and> j \<le> e' \<longrightarrow> j < totalLines \<and> lineContinues sl si (getLine j)) \<and>
       (Suc e' < totalLines \<longrightarrow> \<not> lineContinues sl si (getLine (Suc e')))"
      using True "1.prems" by (intro "1.hyps") auto
    define e' where "e' = fst (walkBlock getLine totalLines sl si (Suc i)
                               (i, ls @ [stripDexComments (getLine i)]))"
    have a: "i \<le> e'"
      and b: "\<And>j. i < j \<Longrightarrow> j \<le> e' \<Longrightarrow> j < totalLines \<and> lineContinues sl si (getLine j)"
      and c: "Suc e' < totalLines \<longrightarrow> \<not> lineContinues sl si (getLine (Suc e'))"
      using ih unfolding e'_def Let_def by blast+
    have "j < totalLines \<and> lineContinues sl si (getLine j)" if "e < j" "j \<le> e'" for j
    proof (cases "j = i")
      case True
      with \<open>i < totalLines \<and> lineContinues sl si (getLine i)\<close> show ?thesis by simp
    next
      case False
      with that ei have "i < j" by simp
      with b that show ?thesis by blast
    qed
    moreover have "e \<le> e'" using a ei by simp
    ultimately show ?thesis
      unfolding eq Let_def e'_def [symmetric] using c by blast
  next
    case False
    then have "walkBlock getLine totalLines sl si i (e, ls) = (e, ls)"
      by (subst walkBlock.simps) auto
    then show ?thesis using False ei by (auto simp: Let_def)
  qed
qed

text \<open>
  C4. The forward walk of \<open>detectContentBlock\<close> from \<open>startLine + 1\<close>: every line up to
  \<open>endLine\<close> is inside the document and is a continuation (more indented than the start
  line, or at its indentation and neither list item nor header), and the line after
  \<open>endLine\<close>, when there is one, is a stop line (blank, a sibling list item of a list-item
  start, a header at the same or a lesser indentation, or another structure at the same
  or a lesser indentation). For \<open>["- contact mention", "  indented note", "- sibling item"]\<close>
  the block is lines 0 to 1, and for \<open>["mention text", "# Header", "more text"]\<close> it is
  line 0.
\<close>

theorem detectContentBlock_boundary:
  "(let r = detectContentBlock getLine totalLines start;
        startIsListItem = isListItemText (trim (getLine start));
        startIndent = searchNonWhite (getLine start)
    in start \<le> endLine r \<and>
       (\<forall>j. start < j \<and> j \<le> endLine r \<longrightarrow>
              j < totalLines \<and> specIncluded startIndent (getLine j)) \<and>
       (Suc (endLine r) < totalLines \<longrightarrow>
              specStops startIsListItem startIndent (getLine (Suc (endLine r))))) \<and>
   endLine (detectContentBlock (\<lambda>i. [''- contact mention'', ''  indented note'', ''- sibling item''] ! i) 3 0) = 1 \<and>
   endLine (detectContentBlock (\<lambda>i. [''mention text'', ''# Header'', ''more text''] ! i) 3 0) = 0"
proof -
  have gen: "let e' = fst (walkBlock getLine totalLines sl si (Suc start) (start, ls))
    in start \<le> e' \<and>
       (\<forall>j. start < j \<and> j \<le> e' \<longrightarrow> j < totalLines \<and> lineContinues sl si (getLine j)) \<and>
       (Suc e' < totalLines \<longrightarrow> \<not> lineContinues sl si (getLine (Suc e')))" for sl si ls
    by (rule walkBlock_boundary) auto
  have e: "endLine (detectContentBlock getLine totalLines start) =
        fst (walkBlock getLine totalLines (isListItemText (trim (getLine start)))
               (searchNonWhite (getLine start)) (Suc start)
               (start, [trim (stripDexComments (getLine start))]))"
    by (simp add: detectContentBlock_def Let_def split: prod.splits)
  have 1: "endLine (detectContentBlock (\<lambda>i. [''- contact mention'', ''  indented note'', ''- sibling item''] ! i) 3 0) = 1"
    by code_simp
  have 2: "endLine (detectContentBlock (\<lambda>i. [''mention text'', ''# Header'', ''more text''] ! i) 3 0) = 0"
    by code_simp
  define r where "r = detectContentBlock getLine totalLines start"
  define sl where "sl = isListItemText (trim (getLine start))"
  define si where "si = searchNonWhite (getLine start)"
  have A: "start \<le> endLine r"
    and B: "\<And>j. start < j \<and> j \<le> endLine r \<Longrightarrow> j < totalLines \<and> lineContinues sl si (getLine j)"
    and C: "Suc (endLine r) < totalLines \<Longrightarrow> \<not> lineContinues sl si (getLine (Suc (endLine r)))"
    using gen [of sl si "[trim (stripDexComments (getLine start))]"]
    unfolding r_def sl_def si_def e Let_def by blast+
  have g: "start \<le> endLine r \<and>
       (\<forall>j. start < j \<and> j \<le> endLine r \<longrightarrow> j < totalLines \<and> specIncluded si (getLine j)) \<and>
       (Suc (endLine r) < totalLines \<longrightarrow> specStops sl si (getLine (Suc (endLine r))))"
    using A B C lineContinues_iff_included [of sl si] not_lineContinues_iff_stops [of sl si]
    by blast
  show ?thesis
    unfolding Let_def using g 1 2 unfolding r_def sl_def si_def by blast
qed

theorem detectContentBlock_boundary_witness:
  "(0::nat) < 1 \<and> 1 \<le> endLine (detectContentBlock (\<lambda>i. [''- contact mention'', ''  indented note'', ''- sibling item''] ! i) 3 0) \<and>
   specIncluded 0 ''  indented note'' \<and>
   Suc (endLine (detectContentBlock (\<lambda>i. [''- contact mention'', ''  indented note'', ''- sibling item''] ! i) 3 0)) < 3 \<and>
   specStops True 0 ''- sibling item''"
proof -
  let ?g = "\<lambda>i. [''- contact mention'', ''  indented note'', ''- sibling item''] ! i"
  have e: "endLine (detectContentBlock ?g 3 0) = 1"
    by code_simp
  have sl: "isListItemText (trim (?g 0)) = True" by code_simp
  have si: "searchNonWhite (?g 0) = 0" by code_simp
  note T = detectContentBlock_boundary [of ?g 3 0, THEN conjunct1, unfolded Let_def e sl si]
  have "0 < (1::nat) \<and> (1::nat) \<le> 1 \<longrightarrow> (1::nat) < 3 \<and> specIncluded 0 (?g 1)"
    using T [THEN conjunct2, THEN conjunct1, THEN spec, of 1] .
  then have a: "specIncluded 0 ''  indented note''" by simp
  have "Suc 1 < (3::nat) \<longrightarrow> specStops True 0 (?g (Suc 1))"
    using T [THEN conjunct2, THEN conjunct2] .
  then have b: "specStops True 0 ''- sibling item''" by simp
  show ?thesis using a b e by simp
qed

section \<open>Properties of one sync\<close>


lemma findFirst_Some:
  "findFirst at s = Some (pre, r) \<Longrightarrow> \<exists>t. s = pre @ t \<and> at t = Some r"
proof (induction s arbitrary: pre)
  case Nil
  then show ?case by (auto split: option.splits)
next
  case (Cons c s)
  show ?case
  proof (cases "at (c # s)")
    case None
    with Cons.prems obtain pre' where f: "findFirst at s = Some (pre', r)" and p: "pre = c # pre'"
      by (auto split: option.splits)
    from Cons.IH [OF f] obtain t where "s = pre' @ t" "at t = Some r" by blast
    with p show ?thesis by auto
  next
    case (Some a)
    with Cons.prems show ?thesis by auto
  qed
qed




lemma ex_frame: "\<exists>head tail. a @ b @ x @ t = head @ x @ (tail :: string)"
  by (metis append.assoc)

lemma rewriteLine_writes:
  assumes "findFirst (dexUrlLinkAt cid) line \<noteq> None \<or> findFirst vaultLinkAt line \<noteq> None"
  shows "\<exists>head tail. rewriteLine cid mid h line = head @ dexComment cid mid h @ tail"
proof (cases "findFirst (dexUrlWithCommentAt cid) line")
  case (Some a)
  then show ?thesis
    by (cases a) (auto simp: rewriteLine_def intro: ex_frame)
next
  case n1: None
  show ?thesis
  proof (cases "findFirst (vaultLinkWithCommentAt cid) line")
    case (Some a)
    with n1 show ?thesis
      by (cases a) (auto simp: rewriteLine_def intro: ex_frame)
  next
    case n2: None
    show ?thesis
    proof (cases "findFirst (dexUrlLinkAt cid) line")
      case (Some a)
      with n1 n2 show ?thesis
        by (cases a) (auto simp: rewriteLine_def intro: ex_frame)
    next
      case n3: None
      with assms obtain a where "findFirst vaultLinkAt line = Some a" by auto
      with n1 n2 n3 show ?thesis
        by (cases a) (auto simp: rewriteLine_def intro: ex_frame)
    qed
  qed
qed

text \<open>
  The shape of one sync that got past the check for unchanged content.
\<close>

lemma syncContactMemo_proceeds:
  assumes "apiClient ctx = Some api" "lineNumber < length editor"
    and "\<not> contentUnchanged editor (getContentBlock editor lineNumber)"
  shows "remoteCalls (syncContactMemo ctx contact lineNumber editor silent) =
           [plannedCall ctx contact (getContentBlock editor lineNumber)]"
    and "performCall api (plannedCall ctx contact (getContentBlock editor lineNumber)) = Inl msg \<Longrightarrow>
         outcome (syncContactMemo ctx contact lineNumber editor silent) = Inl (RemoteError msg) \<and>
         document (syncContactMemo ctx contact lineNumber editor silent) = editor"
    and "performCall api (plannedCall ctx contact (getContentBlock editor lineNumber)) = Inr result \<Longrightarrow>
         outcome (syncContactMemo ctx contact lineNumber editor silent) = Inr (note_id result) \<and>
         document (syncContactMemo ctx contact lineNumber editor silent) =
           editor[lineNumber := rewriteLine (contact_id contact) (note_id result)
                    (simpleHash (trim (stripDexComments (block_content (getContentBlock editor lineNumber)))))
                    (editor ! lineNumber)]"
proof -
  define block where "block = getContentBlock editor lineNumber"
  have pc: "plannedCall ctx contact block =
        (if block_memoId block \<noteq> None \<and>
            \<not> (case block_memoId block of None \<Rightarrow> False | Some m \<Rightarrow> startsWith m ''memo_'')
         then UpdateNoteCall (the (block_memoId block)) (contact_id contact)
                (renderMemo ctx (block_content block))
         else CreateNoteCall (contact_id contact) (renderMemo ctx (block_content block)))"
    by (auto simp: plannedCall_def split: option.splits)
  show "remoteCalls (syncContactMemo ctx contact lineNumber editor silent) =
           [plannedCall ctx contact (getContentBlock editor lineNumber)]"
    using assms unfolding syncContactMemo_def block_def [symmetric] pc
    by (simp add: Let_def split: sum.splits)
  show "performCall api (plannedCall ctx contact (getContentBlock editor lineNumber)) = Inl msg \<Longrightarrow>
         outcome (syncContactMemo ctx contact lineNumber editor silent) = Inl (RemoteError msg) \<and>
         document (syncContactMemo ctx contact lineNumber editor silent) = editor"
    using assms unfolding syncContactMemo_def block_def [symmetric] pc
    by (simp add: Let_def split: sum.splits)
  show "performCall api (plannedCall ctx contact (getContentBlock editor lineNumber)) = Inr result \<Longrightarrow>
         outcome (syncContactMemo ctx contact lineNumber editor silent) = Inr (note_id result) \<and>
         document (syncContactMemo ctx contact lineNumber editor silent) =
           editor[lineNumber := rewriteLine (contact_id contact) (note_id result)
                    (simpleHash (trim (stripDexComments (block_content (getContentBlock editor lineNumber)))))
                    (editor ! lineNumber)]"
    using assms unfolding syncContactMemo_def block_def [symmetric] pc
    by (simp add: Let_def split: sum.splits)
qed

lemma syncContactMemo_calls_cases:
  "remoteCalls (syncContactMemo ctx contact lineNumber editor silent) = [] \<or>
   (\<exists>api. apiClient ctx = Some api \<and> lineNumber < length editor \<and>
      \<not> contentUnchanged editor (getContentBlock editor lineNumber))"
  unfolding syncContactMemo_def
  by (simp add: Let_def split: sum.splits option.splits)

lemma hasExistingMemo_iff: "hasExistingMemo (detectContentBlock g n i) \<longleftrightarrow> memoId (detectContentBlock g n i) \<noteq> None"
  by (auto simp: detectContentBlock_def Let_def split: prod.splits option.splits)

lemma optField_nonempty: "optField key s = (Some v, r) \<Longrightarrow> v \<noteq> []"
  by (auto simp: optField_def split: option.splits if_splits)

lemma memoIdAt_hash_nonempty: "memoIdAt s = Some (g1, g2, Some h) \<Longrightarrow> h \<noteq> []"
  by (auto simp: memoIdAt_def Let_def split: option.splits prod.splits dest: optField_nonempty)

lemma matchMemoId_hash_nonempty: "matchMemoId s = Some (g1, g2, Some h) \<Longrightarrow> h \<noteq> []"
  unfolding matchMemoId_def
  by (auto dest!: findFirst_Some dest: memoIdAt_hash_nonempty)

section \<open>Properties of the patterns\<close>

subsection \<open>Literal prefixes\<close>

lemma stripPrefix_Some: "stripPrefix p s = Some r \<Longrightarrow> s = p @ r"
  by (induction p s rule: stripPrefix.induct) (auto split: if_splits)

lemma stripPrefix_append: "stripPrefix p (p @ r) = Some r"
  by (induction p) auto

lemma ciPrefix_Some:
  "ciPrefix p s = Some (m, r) \<Longrightarrow> s = m @ r \<and> map canon m = map canon p"
  by (induction p s arbitrary: m rule: ciPrefix.induct) (auto split: if_splits option.splits)

lemma ciPrefix_same: "ciPrefix p (p @ r) = Some (p, r)"
  by (induction p) auto

lemma stripPrefix_ciPrefix: "stripPrefix p s = Some r \<Longrightarrow> ciPrefix p s = Some (p, r)"
  by (drule stripPrefix_Some) (simp add: ciPrefix_same)

lemma canon_percent: "canon c = CHR ''%'' \<longleftrightarrow> c = CHR ''%''"
  by (auto simp: canon_def lowerChars_def upperChars_def split: if_splits)

subsection \<open>Text in front of a comment\<close>

lemma stripPrefix_app:
  "stripPrefix (p @ q) s = (case stripPrefix p s of None \<Rightarrow> None | Some r \<Rightarrow> stripPrefix q r)"
  by (induction p s rule: stripPrefix.induct) auto

lemma marker_needs_percents: "stripPrefix ''%%'' t = None \<Longrightarrow> stripPrefix ''%%dex:'' t = None"
  using stripPrefix_app [of "''%%''" "''dex:''" t] by simp

lemma no_marker_inside:
  assumes "\<not> hasDoublePercent (c # h)" "last (c # h) \<noteq> CHR ''%''"
  shows "stripPrefix ''%%'' (c # h @ x) = None"
proof (cases "c = CHR ''%''")
  case False
  then show ?thesis by simp
next
  case True
  with assms(2) obtain b r where h: "h = b # r" by (cases h) auto
  with assms(1) True have "b \<noteq> CHR ''%''" by auto
  with h True show ?thesis by simp
qed

lemma hasDoublePercent_tail: "\<not> hasDoublePercent (c # h) \<Longrightarrow> \<not> hasDoublePercent h"
  by (cases h) auto

lemma findFirst_skip_head:
  assumes at: "\<And>t. stripPrefix ''%%'' t = None \<Longrightarrow> at t = None"
  shows "\<not> hasDoublePercent h \<Longrightarrow> h \<noteq> [] \<Longrightarrow> last h \<noteq> CHR ''%'' \<Longrightarrow>
         findFirst at (h @ x) = map_option (\<lambda>(p, r). (h @ p, r)) (findFirst at x)"
proof (induction h)
  case Nil
  then show ?case by simp
next
  case (Cons c h)
  have n: "at (c # h @ x) = None"
    using Cons.prems by (intro at no_marker_inside) auto
  show ?case
  proof (cases "h = []")
    case True
    with n show ?thesis by (auto split: option.splits)
  next
    case False
    with Cons.prems have "findFirst at (h @ x) = map_option (\<lambda>(p, r). (h @ p, r)) (findFirst at x)"
      by (intro Cons.IH) (auto dest: hasDoublePercent_tail)
    with n show ?thesis by (auto split: option.splits)
  qed
qed

lemma stripDexComments_skip_head:
  "\<not> hasDoublePercent h \<Longrightarrow> h \<noteq> [] \<Longrightarrow> last h \<noteq> CHR ''%'' \<Longrightarrow>
   stripDexComments (h @ x) = h @ stripDexComments x"
proof (induction h)
  case Nil
  then show ?case by simp
next
  case (Cons c h)
  have "stripPrefix ''%%'' (c # h @ x) = None"
    using Cons.prems by (intro no_marker_inside) auto
  then have "stripPrefix ''%%dex:'' (c # h @ x) = None"
    by (rule marker_needs_percents)
  then have n: "dexCommentAt (c # h @ x) = None"
    unfolding dexCommentAt_def by (simp only: option.case)
  show ?case
  proof (cases "h = []")
    case True
    with n show ?thesis by simp
  next
    case False
    with Cons.prems have "stripDexComments (h @ x) = h @ stripDexComments x"
      by (intro Cons.IH) (auto dest: hasDoublePercent_tail)
    with n show ?thesis by simp
  qed
qed

lemma memoIdAt_needs_marker: "stripPrefix ''%%'' t = None \<Longrightarrow> memoIdAt t = None"
  unfolding memoIdAt_def by (drule marker_needs_percents) (simp only: option.case)

subsection \<open>Comments\<close>

lemma dexCommentAt_Some:
  assumes "dexCommentAt s = Some r"
  shows "\<exists>body. s = ''%%dex:'' @ body @ ''%%'' @ r \<and> CHR ''%'' \<notin> set body"
proof -
  from assms obtain r0 where r0: "stripPrefix ''%%dex:'' s = Some r0"
    and r1: "stripPrefix ''%%'' (dropWhile (\<lambda>c. c \<noteq> CHR ''%'') r0) = Some r"
    by (auto simp: dexCommentAt_def split: option.splits)
  have "r0 = takeWhile (\<lambda>c. c \<noteq> CHR ''%'') r0 @ dropWhile (\<lambda>c. c \<noteq> CHR ''%'') r0"
    by simp
  moreover have "dropWhile (\<lambda>c. c \<noteq> CHR ''%'') r0 = ''%%'' @ r"
    using r1 by (rule stripPrefix_Some)
  moreover have "s = ''%%dex:'' @ r0" using r0 by (rule stripPrefix_Some)
  moreover have "CHR ''%'' \<notin> set (takeWhile (\<lambda>c. c \<noteq> CHR ''%'') r0)"
    by (auto dest: set_takeWhileD)
  ultimately show ?thesis by metis
qed

lemma dexCommentAt_intro:
  assumes "CHR ''%'' \<notin> set body"
  shows "dexCommentAt (''%%dex:'' @ body @ ''%%'' @ r) = Some r"
proof -
  have "dropWhile (\<lambda>c. c \<noteq> CHR ''%'') (body @ ''%%'' @ r) = ''%%'' @ r"
    using assms by (subst dropWhile_append2) auto
  then show ?thesis
    unfolding dexCommentAt_def by (simp only: stripPrefix_append option.case)
qed

lemma dexCommentAt_extend: "dexCommentAt old = Some [] \<Longrightarrow> dexCommentAt (old @ t) = Some t"
proof -
  assume "dexCommentAt old = Some []"
  from dexCommentAt_Some [OF this] obtain body
    where "old = ''%%dex:'' @ body @ ''%%'' @ []" "CHR ''%'' \<notin> set body" by blast
  then show ?thesis
    using dexCommentAt_intro [of body t] by simp
qed

lemma stripDexComments_comment:
  "dexCommentAt (c @ t) = Some t \<Longrightarrow> stripDexComments (c @ t) = stripDexComments t"
  by (cases "c @ t") (auto dest: dexCommentAt_shorter)

subsection \<open>The comment a sync writes, read back\<close>

lemma optField_hit:
  assumes "validField v" "\<And>c r. rest = c # r \<Longrightarrow> \<not> isFieldChar c"
  shows "optField key (key @ v @ rest) = (Some v, rest)"
proof -
  have all: "\<And>x. x \<in> set v \<Longrightarrow> isFieldChar x"
    using assms(1) by (simp add: validField_def list_all_iff)
  have tr: "takeWhile isFieldChar rest = []"
    using assms(2) by (cases rest) auto
  have t: "takeWhile isFieldChar (v @ rest) = v"
    using all tr by (simp add: takeWhile_append2)
  have dr: "dropWhile isFieldChar rest = rest"
    using assms(2) by (cases rest) auto
  have d: "dropWhile isFieldChar (v @ rest) = rest"
    using all dr by (simp add: dropWhile_append2)
  have "v \<noteq> []" using assms(1) by (simp add: validField_def)
  then show ?thesis
    unfolding optField_def by (simp only: stripPrefix_append option.case t d if_False prod.case)
qed

lemma optField_miss: "stripPrefix key s = None \<Longrightarrow> optField key s = (None, s)"
  by (simp add: optField_def)

lemma optField_field:
  assumes "case f of None \<Rightarrow> stripPrefix key rest = None | Some v \<Rightarrow> validField v"
    and "\<And>c r. rest = c # r \<Longrightarrow> \<not> isFieldChar c"
  shows "optField key ((case f of None \<Rightarrow> [] | Some v \<Rightarrow> key @ v) @ rest) = (f, rest)"
proof (cases f)
  case None
  with assms(1) show ?thesis by (simp add: optField_miss)
next
  case (Some v)
  with assms(1) have "validField v" by simp
  from optField_hit [OF this assms(2)] Some show ?thesis by simp
qed

lemma memoIdAt_steps:
  assumes "optField ''contact-id='' r0 = (g1, r1)"
    and "optField '',memo-id='' r1 = (g2, r2)"
    and "optField '',hash='' r2 = (g3, r3)"
    and "stripPrefix ''%%'' r3 = Some post"
  shows "memoIdAt (''%%dex:'' @ r0) = Some (g1, g2, g3)"
  using assms by (simp add: memoIdAt_def)

lemma memoIdAt_comment:
  assumes c: "\<And>x. c = Some x \<Longrightarrow> validField x"
    and m: "\<And>y. m = Some y \<Longrightarrow> validField y"
    and h: "\<And>z. h = Some z \<Longrightarrow> validField z"
  shows "memoIdAt (commentWith c m h @ post) = Some (c, m, h)"
proof -
  define R3 where "R3 = ''%%'' @ post"
  define R2 where "R2 = (case h of None \<Rightarrow> [] | Some z \<Rightarrow> '',hash='' @ z) @ R3"
  define R1 where "R1 = (case m of None \<Rightarrow> [] | Some y \<Rightarrow> '',memo-id='' @ y) @ R2"
  define R0 where "R0 = (case c of None \<Rightarrow> [] | Some x \<Rightarrow> ''contact-id='' @ x) @ R1"
  have e: "commentWith c m h @ post = ''%%dex:'' @ R0"
    by (simp add: commentWith_def R0_def R1_def R2_def R3_def)
  have n3: "\<not> isFieldChar ch" if "R3 = ch # r" for ch r
    using that by (simp add: R3_def isFieldChar_def)
  have n2: "\<not> isFieldChar ch" if "R2 = ch # r" for ch r
    using that by (cases h) (auto simp: R2_def R3_def isFieldChar_def)
  have n1: "\<not> isFieldChar ch" if "R1 = ch # r" for ch r
    using that by (cases m; cases h) (auto simp: R1_def R2_def R3_def isFieldChar_def)
  have s3: "optField '',hash='' R2 = (h, R3)"
    unfolding R2_def using h n3 by (intro optField_field) (auto simp: R3_def split: option.splits)
  have s2: "optField '',memo-id='' R1 = (m, R2)"
    unfolding R1_def using m n2
    by (intro optField_field) (auto simp: R2_def R3_def split: option.splits)
  have s1: "optField ''contact-id='' R0 = (c, R1)"
    unfolding R0_def using c n1
    by (intro optField_field) (auto simp: R1_def R2_def R3_def split: option.splits)
  have "stripPrefix ''%%'' R3 = Some post"
    unfolding R3_def by (rule stripPrefix_append)
  from memoIdAt_steps [OF s1 s2 s3 this] e show ?thesis by simp
qed

lemma matchMemoId_comment:
  assumes c: "\<And>x. c = Some x \<Longrightarrow> validField x"
    and m: "\<And>y. m = Some y \<Longrightarrow> validField y"
    and h: "\<And>z. h = Some z \<Longrightarrow> validField z"
    and pre: "\<not> hasDoublePercent pre" "pre = [] \<or> last pre \<noteq> CHR ''%''"
  shows "matchMemoId (pre @ commentWith c m h @ post) = Some (c, m, h)"
proof -
  have at: "memoIdAt (commentWith c m h @ post) = Some (c, m, h)"
    using c m h by (rule memoIdAt_comment)
  then have f: "findFirst memoIdAt (commentWith c m h @ post) = Some ([], (c, m, h))"
    by (cases "commentWith c m h @ post") auto
  show ?thesis
  proof (cases "pre = []")
    case True
    with f show ?thesis by (simp add: matchMemoId_def)
  next
    case False
    with pre have "findFirst memoIdAt (pre @ commentWith c m h @ post) =
        map_option (\<lambda>(p, r). (pre @ p, r)) (findFirst memoIdAt (commentWith c m h @ post))"
      by (intro findFirst_skip_head memoIdAt_needs_marker) auto
    with f show ?thesis by (simp add: matchMemoId_def)
  qed
qed

lemma separators_not_idChar:
  "\<not> isIdChar (CHR '','')" "\<not> isIdChar (CHR ''%'')" "\<not> isIdChar (CHR '')'')"
  by (simp_all add: isIdChar_def)

lemma isIdChar_isFieldChar: "isIdChar c \<Longrightarrow> isFieldChar c"
  using separators_not_idChar by (auto simp: isFieldChar_def)

lemma plainId_validField: "plainId s \<Longrightarrow> validField s"
  by (auto simp: plainId_def validField_def list_all_iff intro: isIdChar_isFieldChar)

lemma plainId_no_percent: "plainId s \<Longrightarrow> CHR ''%'' \<notin> set s"
  using separators_not_idChar(2) by (auto simp: plainId_def list_all_iff)

lemma dexComment_commentWith: "dexComment cid mid h = commentWith (Some cid) (Some mid) (Some h)"
  by (simp add: dexComment_def commentWith_def)

subsection \<open>What the link patterns match\<close>

lemma dexUrlLinkAt_Some:
  assumes "dexUrlLinkAt cid s = Some (g1, r)"
  shows "s = g1 @ r \<and>
         (\<exists>disp m. g1 = CHR ''['' # disp @ m \<and> CHR '']'' \<notin> set disp \<and>
            map canon m = map canon (''](https://getdex.com/appv3/contacts/details/'' @ cid @ '')''))"
proof -
  from assms obtain r0 where s: "s = CHR ''['' # r0"
    by (cases s) (auto simp: dexUrlLinkAt_def split: if_splits)
  with assms obtain m where
    ci: "ciPrefix (''](https://getdex.com/appv3/contacts/details/'' @ cid @ '')'')
           (dropWhile (\<lambda>c. c \<noteq> CHR '']'') r0) = Some (m, r)"
    and g1: "g1 = CHR ''['' # takeWhile (\<lambda>c. c \<noteq> CHR '']'') r0 @ m"
    by (auto simp: dexUrlLinkAt_def split: option.splits)
  from ciPrefix_Some [OF ci] have d: "dropWhile (\<lambda>c. c \<noteq> CHR '']'') r0 = m @ r"
    and mc: "map canon m = map canon (''](https://getdex.com/appv3/contacts/details/'' @ cid @ '')'')"
    by blast+
  have "r0 = takeWhile (\<lambda>c. c \<noteq> CHR '']'') r0 @ dropWhile (\<lambda>c. c \<noteq> CHR '']'') r0"
    by simp
  with d have "r0 = takeWhile (\<lambda>c. c \<noteq> CHR '']'') r0 @ m @ r" by simp
  with s g1 have "s = g1 @ r" by simp
  moreover have "CHR '']'' \<notin> set (takeWhile (\<lambda>c. c \<noteq> CHR '']'') r0)"
    by (auto dest: set_takeWhileD)
  ultimately show ?thesis using g1 mc by blast
qed

lemma vaultLinkAt_Some:
  assumes "vaultLinkAt s = Some (g1, r)"
  shows "s = g1 @ r \<and> (\<exists>body. g1 = ''[['' @ body @ '']]'' \<and> body \<noteq> [] \<and> CHR '']'' \<notin> set body)"
proof -
  from assms obtain r0 where r0: "stripPrefix ''[['' s = Some r0"
    and ne: "takeWhile (\<lambda>c. c \<noteq> CHR '']'') r0 \<noteq> []"
    and cl: "stripPrefix '']]'' (dropWhile (\<lambda>c. c \<noteq> CHR '']'') r0) = Some r"
    and g1: "g1 = ''[['' @ takeWhile (\<lambda>c. c \<noteq> CHR '']'') r0 @ '']]''"
    by (auto simp: vaultLinkAt_def split: option.splits if_splits)
  have "r0 = takeWhile (\<lambda>c. c \<noteq> CHR '']'') r0 @ dropWhile (\<lambda>c. c \<noteq> CHR '']'') r0"
    by simp
  moreover have "dropWhile (\<lambda>c. c \<noteq> CHR '']'') r0 = '']]'' @ r"
    using cl by (rule stripPrefix_Some)
  moreover have "s = ''[['' @ r0" using r0 by (rule stripPrefix_Some)
  ultimately have "s = g1 @ r" using g1 by (metis append.assoc)
  moreover have "CHR '']'' \<notin> set (takeWhile (\<lambda>c. c \<noteq> CHR '']'') r0)"
    by (auto dest: set_takeWhileD)
  ultimately show ?thesis using g1 ne by blast
qed

lemma dexUrlLink_end:
  assumes "dexUrlLinkAt cid s = Some (g1, r)"
  shows "g1 \<noteq> [] \<and> last g1 \<noteq> CHR ''%'' \<and> CHR ''['' \<in> set g1 \<and> \<not> isWhite (last g1)"
proof -
  from dexUrlLinkAt_Some [OF assms] obtain disp m where g1: "g1 = CHR ''['' # disp @ m"
    and mc: "map canon m = map canon (''](https://getdex.com/appv3/contacts/details/'' @ cid @ '')'')"
    by blast
  from mc have "length m = length (''](https://getdex.com/appv3/contacts/details/'' @ cid @ '')'')"
    by (rule map_eq_imp_length_eq)
  then have mne: "m \<noteq> []" by auto
  have "last (map canon m) = last (map canon (''](https://getdex.com/appv3/contacts/details/'' @ cid @ '')''))"
    using mc by simp
  then have cl: "canon (last m) = canon (CHR '')'')"
    using mne by (simp add: last_map)
  have "canon (CHR '')'') = CHR '')''" by (simp add: canon_def lowerChars_def upperChars_def)
  with cl have c2: "canon (last m) = CHR '')''" by simp
  have np: "last m \<noteq> CHR ''%''"
  proof
    assume "last m = CHR ''%''"
    with c2 have "canon (CHR ''%'') = CHR '')''" by simp
    then show False by (simp add: canon_def lowerChars_def upperChars_def)
  qed
  have nw: "\<not> isWhite (last m)"
  proof
    assume "isWhite (last m)"
    then consider "last m = CHR 0x09" | "last m = CHR 0x0A" | "last m = CHR 0x0B"
      | "last m = CHR 0x0C" | "last m = CHR 0x0D" | "last m = CHR 0x20" | "last m = CHR 0xA0"
      unfolding isWhite_def by blast
    then show False
      using c2 by cases (simp_all add: canon_def lowerChars_def upperChars_def)
  qed
  from g1 mne np nw show ?thesis by simp
qed

lemma vaultLink_end:
  assumes "vaultLinkAt s = Some (g1, r)"
  shows "g1 \<noteq> [] \<and> last g1 \<noteq> CHR ''%'' \<and> CHR ''['' \<in> set g1 \<and> \<not> isWhite (last g1)"
  using vaultLinkAt_Some [OF assms] by (auto simp: isWhite_def)

lemma dexUrlWithComment_link:
  "dexUrlWithCommentAt cid s = Some (g1, g2, post) \<Longrightarrow> \<exists>r. dexUrlLinkAt cid s = Some (g1, r)"
  by (auto simp: dexUrlWithCommentAt_def split: option.splits)

lemma vaultLinkWithComment_link:
  "vaultLinkWithCommentAt cid s = Some (g1, g2, post) \<Longrightarrow> \<exists>r. vaultLinkAt s = Some (g1, r)"
  by (auto simp: vaultLinkWithCommentAt_def split: option.splits)

lemma rewriteLine_site:
  "rewriteLine cid mid h line =
     (case annotationSite cid line of
        None \<Rightarrow> line
      | Some (head, old, tail) \<Rightarrow> head @ dexComment cid mid h @ tail)"
  by (simp add: rewriteLine_def annotationSite_def split: option.splits)

lemma annotationSite_head:
  assumes "annotationSite cid line = Some (head, old, tail)"
  shows "head \<noteq> [] \<and> last head \<noteq> CHR ''%'' \<and> CHR ''['' \<in> set head \<and> \<not> isWhite (last head)"
proof -
  have "\<exists>pre g1. head = pre @ g1 \<and> g1 \<noteq> [] \<and> last g1 \<noteq> CHR ''%'' \<and> CHR ''['' \<in> set g1 \<and>
          \<not> isWhite (last g1)"
    using assms unfolding annotationSite_def
    by (auto split: option.splits
             dest!: findFirst_Some dexUrlWithComment_link vaultLinkWithComment_link
             dest: dexUrlLink_end vaultLink_end)
  then show ?thesis by auto
qed

subsection \<open>The text a rewrite replaces\<close>

lemma ciPrefix_intro: "map canon m = map canon p \<Longrightarrow> ciPrefix p (m @ r) = Some (m, r)"
proof (induction p arbitrary: m)
  case Nil
  then show ?case by simp
next
  case (Cons a p)
  then obtain b m' where m: "m = b # m'" by (cases m) auto
  with Cons.prems have "canon a = canon b" "map canon m' = map canon p" by auto
  with Cons.IH [of m'] m show ?case by simp
qed

lemma dropWhile_to_percents:
  "CHR ''%'' \<notin> set body \<Longrightarrow> dropWhile (\<lambda>c. c \<noteq> CHR ''%'') (body @ ''%%'' @ r) = ''%%'' @ r"
  by (subst dropWhile_append2) auto

lemma ciDexCommentAt_split:
  assumes "ciDexCommentAt t = Some r'"
  shows "\<exists>c. t = c @ r' \<and> c \<noteq> [] \<and> ciDexCommentAt c = Some []"
proof -
  from assms obtain m r0 where ci: "ciPrefix ''%%dex:'' t = Some (m, r0)"
    and cl: "stripPrefix ''%%'' (dropWhile (\<lambda>c. c \<noteq> CHR ''%'') r0) = Some r'"
    by (auto simp: ciDexCommentAt_def split: option.splits)
  define body where "body = takeWhile (\<lambda>c. c \<noteq> CHR ''%'') r0"
  have nb: "CHR ''%'' \<notin> set body"
    unfolding body_def by (auto dest: set_takeWhileD)
  have t: "t = m @ r0" and mc: "map canon m = map canon ''%%dex:''"
    using ciPrefix_Some [OF ci] by blast+
  have "r0 = body @ dropWhile (\<lambda>c. c \<noteq> CHR ''%'') r0"
    unfolding body_def by simp
  moreover have "dropWhile (\<lambda>c. c \<noteq> CHR ''%'') r0 = ''%%'' @ r'"
    using cl by (rule stripPrefix_Some)
  ultimately have r0: "r0 = body @ ''%%'' @ r'" by simp
  have "ciPrefix ''%%dex:'' (m @ body @ ''%%'') = Some (m, body @ ''%%'')"
    using mc by (rule ciPrefix_intro)
  moreover have "dropWhile (\<lambda>c. c \<noteq> CHR ''%'') (body @ ''%%'' @ []) = ''%%'' @ []"
    using nb by (rule dropWhile_to_percents)
  ultimately have "ciDexCommentAt (m @ body @ ''%%'') = Some []"
    by (simp add: ciDexCommentAt_def)
  moreover have "t = (m @ body @ ''%%'') @ r'" using t r0 by simp
  ultimately show ?thesis by blast
qed

lemma ownCommentAt_split:
  assumes "ownCommentAt cid t = Some r'"
  shows "\<exists>c. t = c @ r' \<and> c \<noteq> [] \<and> ownCommentAt cid c = Some []"
proof -
  from assms obtain m r0 where ci: "ciPrefix (''%%dex:contact-id='' @ cid) t = Some (m, r0)"
    by (auto simp: ownCommentAt_def split: option.splits)
  have t: "t = m @ r0" and mc: "map canon m = map canon (''%%dex:contact-id='' @ cid)"
    using ciPrefix_Some [OF ci] by blast+
  have cim: "\<And>r. ciPrefix (''%%dex:contact-id='' @ cid) (m @ r) = Some (m, r)"
    using mc by (rule ciPrefix_intro)
  from assms ci obtain x r1 where r0: "r0 = x # r1"
    by (cases r0) (auto simp: ownCommentAt_def)
  show ?thesis
  proof (cases "x = CHR '',''")
    case True
    with assms ci r0 have cl: "stripPrefix ''%%'' (dropWhile (\<lambda>c. c \<noteq> CHR ''%'') r1) = Some r'"
      by (simp add: ownCommentAt_def)
    define body where "body = takeWhile (\<lambda>c. c \<noteq> CHR ''%'') r1"
    have nb: "CHR ''%'' \<notin> set body"
      unfolding body_def by (auto dest: set_takeWhileD)
    have "r1 = body @ dropWhile (\<lambda>c. c \<noteq> CHR ''%'') r1"
      unfolding body_def by simp
    moreover have "dropWhile (\<lambda>c. c \<noteq> CHR ''%'') r1 = ''%%'' @ r'"
      using cl by (rule stripPrefix_Some)
    ultimately have r1: "r1 = body @ ''%%'' @ r'" by simp
    have "dropWhile (\<lambda>c. c \<noteq> CHR ''%'') (body @ ''%%'' @ []) = ''%%'' @ []"
      using nb by (rule dropWhile_to_percents)
    then have "ownCommentAt cid (m @ CHR '','' # body @ ''%%'') = Some []"
      using cim [of "CHR '','' # body @ ''%%''"] by (simp add: ownCommentAt_def)
    moreover have "t = (m @ CHR '','' # body @ ''%%'') @ r'"
      using t r0 r1 True by simp
    ultimately show ?thesis by blast
  next
    case False
    with assms ci r0 have "stripPrefix ''%%'' r0 = Some r'"
      by (simp add: ownCommentAt_def)
    then have r0': "r0 = ''%%'' @ r'" by (rule stripPrefix_Some)
    have "ownCommentAt cid (m @ ''%%'') = Some []"
      using cim [of "''%%''"] by (simp add: ownCommentAt_def)
    moreover have "t = (m @ ''%%'') @ r'" using t r0' by simp
    ultimately show ?thesis by blast
  qed
qed

lemma list_all_takeWhile: "list_all P (takeWhile P xs)"
  by (induction xs) auto

lemma dexUrlWithCommentAt_Some:
  assumes "dexUrlWithCommentAt cid s = Some (g1, g2, post)"
  shows "\<exists>ws c. s = g1 @ ws @ c @ g2 @ post \<and> list_all isWhite ws \<and> c \<noteq> [] \<and>
           ciDexCommentAt c = Some [] \<and> (\<exists>r. dexUrlLinkAt cid s = Some (g1, r))"
proof -
  from assms obtain r r' where l: "dexUrlLinkAt cid s = Some (g1, r)"
    and c: "ciDexCommentAt (dropWhile isWhite r) = Some r'"
    and g2: "g2 = takeWhile isWhite r'" and post: "post = dropWhile isWhite r'"
    by (auto simp: dexUrlWithCommentAt_def split: option.splits)
  from dexUrlLinkAt_Some [OF l] have s: "s = g1 @ r" by blast
  from ciDexCommentAt_split [OF c] obtain cm where cm: "dropWhile isWhite r = cm @ r'"
    "cm \<noteq> []" "ciDexCommentAt cm = Some []" by blast
  have "r = takeWhile isWhite r @ dropWhile isWhite r" by simp
  with cm(1) have "r = takeWhile isWhite r @ cm @ r'" by simp
  moreover have "r' = g2 @ post" using g2 post by simp
  ultimately have "s = g1 @ takeWhile isWhite r @ cm @ g2 @ post" using s by simp
  with cm(2,3) l show ?thesis using list_all_takeWhile [of isWhite r] by blast
qed

lemma vaultLinkWithCommentAt_Some:
  assumes "vaultLinkWithCommentAt cid s = Some (g1, g2, post)"
  shows "\<exists>ws c. s = g1 @ ws @ c @ g2 @ post \<and> list_all isWhite ws \<and> c \<noteq> [] \<and>
           ownCommentAt cid c = Some [] \<and> (\<exists>r. vaultLinkAt s = Some (g1, r))"
proof -
  from assms obtain r r' where l: "vaultLinkAt s = Some (g1, r)"
    and c: "ownCommentAt cid (dropWhile isWhite r) = Some r'"
    and g2: "g2 = takeWhile isWhite r'" and post: "post = dropWhile isWhite r'"
    by (auto simp: vaultLinkWithCommentAt_def split: option.splits)
  from vaultLinkAt_Some [OF l] have s: "s = g1 @ r" by blast
  from ownCommentAt_split [OF c] obtain cm where cm: "dropWhile isWhite r = cm @ r'"
    "cm \<noteq> []" "ownCommentAt cid cm = Some []" by blast
  have "r = takeWhile isWhite r @ dropWhile isWhite r" by simp
  with cm(1) have "r = takeWhile isWhite r @ cm @ r'" by simp
  moreover have "r' = g2 @ post" using g2 post by simp
  ultimately have "s = g1 @ takeWhile isWhite r @ cm @ g2 @ post" using s by simp
  with cm(2,3) l show ?thesis using list_all_takeWhile [of isWhite r] by blast
qed

lemma middle_piece:
  "line = pre @ g1 @ ws @ c @ g2 @ post \<Longrightarrow>
   take (length line - length (pre @ g1) - length (g2 @ post)) (drop (length (pre @ g1)) line) = ws @ c"
  by simp

text \<open>
  When the rewrite replaces a comment: the line is the text up to the link, the piece
  that is replaced, and the rest; the piece is white space and one comment; and either
  the link is a Dex URL link to the contact, or the comment carries the contact's id.
\<close>

lemma annotationSite_replace:
  assumes "annotationSite cid line = Some (head, old, tail)" "old \<noteq> []"
  shows "line = head @ old @ tail \<and>
         (\<exists>ws c. old = ws @ c \<and> list_all isWhite ws \<and>
            ((ciDexCommentAt c = Some [] \<and>
              (\<exists>pre disp u. head = pre @ CHR ''['' # disp @ u \<and> CHR '']'' \<notin> set disp \<and>
                 map canon u = map canon (''](https://getdex.com/appv3/contacts/details/'' @ cid @ '')''))) \<or>
             (ownCommentAt cid c = Some [] \<and>
              (\<exists>pre body. head = pre @ ''[['' @ body @ '']]'' \<and> body \<noteq> [] \<and> CHR '']'' \<notin> set body))))"
proof (cases "findFirst (dexUrlWithCommentAt cid) line")
  case (Some a)
  then obtain pre g1 g2 post where f: "findFirst (dexUrlWithCommentAt cid) line = Some (pre, g1, g2, post)"
    by (cases a) auto
  from findFirst_Some [OF f] obtain t where t: "line = pre @ t"
    "dexUrlWithCommentAt cid t = Some (g1, g2, post)" by blast
  from dexUrlWithCommentAt_Some [OF t(2)] obtain ws c r where
    d: "t = g1 @ ws @ c @ g2 @ post" "list_all isWhite ws" "ciDexCommentAt c = Some []"
       "dexUrlLinkAt cid t = Some (g1, r)" by blast
  from dexUrlLinkAt_Some [OF d(4)] obtain disp u where
    u: "g1 = CHR ''['' # disp @ u" "CHR '']'' \<notin> set disp"
       "map canon u = map canon (''](https://getdex.com/appv3/contacts/details/'' @ cid @ '')'')"
    by blast
  have l: "line = pre @ g1 @ ws @ c @ g2 @ post" using t(1) d(1) by simp
  have "Some (pre @ g1,
              take (length line - length (pre @ g1) - length (g2 @ post))
                (drop (length (pre @ g1)) line),
              g2 @ post) = Some (head, old, tail)"
    using assms(1) unfolding annotationSite_def f by (simp only: option.case prod.case)
  then have e: "head = pre @ g1" "old = ws @ c" "tail = g2 @ post"
    unfolding middle_piece [OF l] by simp_all
  have hd: "\<exists>pre disp u. head = pre @ CHR ''['' # disp @ u \<and> CHR '']'' \<notin> set disp \<and>
                 map canon u = map canon (''](https://getdex.com/appv3/contacts/details/'' @ cid @ '')'')"
    using e(1) u by blast
  have 1: "line = head @ old @ tail" using l e by simp
  have "old = ws @ c \<and> list_all isWhite ws \<and>
            ((ciDexCommentAt c = Some [] \<and>
              (\<exists>pre disp u. head = pre @ CHR ''['' # disp @ u \<and> CHR '']'' \<notin> set disp \<and>
                 map canon u = map canon (''](https://getdex.com/appv3/contacts/details/'' @ cid @ '')''))) \<or>
             (ownCommentAt cid c = Some [] \<and>
              (\<exists>pre body. head = pre @ ''[['' @ body @ '']]'' \<and> body \<noteq> [] \<and> CHR '']'' \<notin> set body)))"
    using e(2) d(2,3) hd by (intro conjI disjI1)
  then have "\<exists>ws c. old = ws @ c \<and> list_all isWhite ws \<and>
            ((ciDexCommentAt c = Some [] \<and>
              (\<exists>pre disp u. head = pre @ CHR ''['' # disp @ u \<and> CHR '']'' \<notin> set disp \<and>
                 map canon u = map canon (''](https://getdex.com/appv3/contacts/details/'' @ cid @ '')''))) \<or>
             (ownCommentAt cid c = Some [] \<and>
              (\<exists>pre body. head = pre @ ''[['' @ body @ '']]'' \<and> body \<noteq> [] \<and> CHR '']'' \<notin> set body)))"
    by - (rule exI [of _ ws], rule exI [of _ c], assumption)
  with 1 show ?thesis by (rule conjI)
next
  case n1: None
  show ?thesis
  proof (cases "findFirst (vaultLinkWithCommentAt cid) line")
    case (Some a)
    then obtain pre g1 g2 post where
      f: "findFirst (vaultLinkWithCommentAt cid) line = Some (pre, g1, g2, post)"
      by (cases a) auto
    from findFirst_Some [OF f] obtain t where t: "line = pre @ t"
      "vaultLinkWithCommentAt cid t = Some (g1, g2, post)" by blast
    from vaultLinkWithCommentAt_Some [OF t(2)] obtain ws c r where
      d: "t = g1 @ ws @ c @ g2 @ post" "list_all isWhite ws" "ownCommentAt cid c = Some []"
         "vaultLinkAt t = Some (g1, r)" by blast
    from vaultLinkAt_Some [OF d(4)] obtain body where
      u: "g1 = ''[['' @ body @ '']]''" "body \<noteq> []" "CHR '']'' \<notin> set body" by blast
    have l: "line = pre @ g1 @ ws @ c @ g2 @ post" using t(1) d(1) by simp
    have "Some (pre @ g1,
                take (length line - length (pre @ g1) - length (g2 @ post))
                  (drop (length (pre @ g1)) line),
                g2 @ post) = Some (head, old, tail)"
      using assms(1) unfolding annotationSite_def n1 f by (simp only: option.case prod.case)
    then have e: "head = pre @ g1" "old = ws @ c" "tail = g2 @ post"
      unfolding middle_piece [OF l] by simp_all
    have hd: "\<exists>pre body. head = pre @ ''[['' @ body @ '']]'' \<and> body \<noteq> [] \<and> CHR '']'' \<notin> set body"
      using e(1) u by blast
    have 1: "line = head @ old @ tail" using l e by simp
    have "old = ws @ c \<and> list_all isWhite ws \<and>
            ((ciDexCommentAt c = Some [] \<and>
              (\<exists>pre disp u. head = pre @ CHR ''['' # disp @ u \<and> CHR '']'' \<notin> set disp \<and>
                 map canon u = map canon (''](https://getdex.com/appv3/contacts/details/'' @ cid @ '')''))) \<or>
             (ownCommentAt cid c = Some [] \<and>
              (\<exists>pre body. head = pre @ ''[['' @ body @ '']]'' \<and> body \<noteq> [] \<and> CHR '']'' \<notin> set body)))"
      using e(2) d(2,3) hd by (intro conjI disjI2)
    then have "\<exists>ws c. old = ws @ c \<and> list_all isWhite ws \<and>
            ((ciDexCommentAt c = Some [] \<and>
              (\<exists>pre disp u. head = pre @ CHR ''['' # disp @ u \<and> CHR '']'' \<notin> set disp \<and>
                 map canon u = map canon (''](https://getdex.com/appv3/contacts/details/'' @ cid @ '')''))) \<or>
             (ownCommentAt cid c = Some [] \<and>
              (\<exists>pre body. head = pre @ ''[['' @ body @ '']]'' \<and> body \<noteq> [] \<and> CHR '']'' \<notin> set body)))"
      by - (rule exI [of _ ws], rule exI [of _ c], assumption)
    with 1 show ?thesis by (rule conjI)
  next
    case n2: None
    with n1 assms show ?thesis
      by (auto simp: annotationSite_def split: option.splits)
  qed
qed

subsection \<open>The detector on a rewritten start line\<close>

lemma nonwhite_in_head: "h \<noteq> [] \<Longrightarrow> \<not> isWhite (last h) \<Longrightarrow> \<exists>x\<in>set h. \<not> isWhite x"
  using last_in_set by blast

lemma searchNonWhite_head:
  assumes "h \<noteq> []" "\<not> isWhite (last h)"
  shows "searchNonWhite (h @ x) = searchNonWhite h"
proof -
  from nonwhite_in_head [OF assms] obtain y where y: "y \<in> set h" "\<not> isWhite y" by blast
  then have "takeWhile isWhite (h @ x) = takeWhile isWhite h"
    and "dropWhile isWhite (h @ x) = dropWhile isWhite h @ x"
    by (simp_all add: takeWhile_append1 dropWhile_append1)
  moreover have "dropWhile isWhite h \<noteq> []"
    using y by (auto simp: dropWhile_eq_Nil_conv)
  ultimately show ?thesis by (simp add: searchNonWhite_def)
qed

lemma trimEnd_head:
  assumes "h \<noteq> []" "\<not> isWhite (last h)"
  shows "\<exists>x'. trimEnd (h @ x) = h @ x'"
proof (cases "\<forall>c\<in>set x. isWhite c")
  case True
  then have "dropWhile isWhite (rev x @ rev h) = dropWhile isWhite (rev h)"
    by (intro dropWhile_append2) auto
  moreover have "dropWhile isWhite (rev h) = rev h"
    using assms by (cases "rev h") (auto simp: last_rev [symmetric] hd_rev)
  ultimately have "trimEnd (h @ x) = h @ []" by (simp add: trimEnd_def)
  then show ?thesis by blast
next
  case False
  then obtain y where "y \<in> set (rev x)" "\<not> isWhite y" by auto
  then have "dropWhile isWhite (rev x @ rev h) = dropWhile isWhite (rev x) @ rev h"
    by (simp add: dropWhile_append1)
  then have "trimEnd (h @ x) = h @ rev (dropWhile isWhite (rev x))"
    by (simp add: trimEnd_def)
  then show ?thesis by blast
qed

lemma trim_head:
  assumes "h \<noteq> []" "\<not> isWhite (last h)"
  shows "\<exists>x'. trim (h @ x) = trimStart h @ x'"
proof -
  from trimEnd_head [OF assms] obtain x' where e: "trimEnd (h @ x) = h @ x'" by blast
  from nonwhite_in_head [OF assms] obtain y where "y \<in> set h" "\<not> isWhite y" by blast
  then have "dropWhile isWhite (h @ x') = dropWhile isWhite h @ x'"
    by (simp add: dropWhile_append1)
  with e show ?thesis by (auto simp: trim_def trimStart_def)
qed

lemma startsWhite_append: "r \<noteq> [] \<Longrightarrow> startsWhite (r @ x) = startsWhite r"
  by (cases r) (auto simp: startsWhite_def)

lemma isListItemText_prefix:
  assumes "CHR ''['' \<in> set s"
  shows "isListItemText (s @ x) = isListItemText s"
proof -
  from assms obtain c r where s: "s = c # r" by (cases s) auto
  show ?thesis
  proof (cases "c = CHR ''*'' \<or> c = CHR ''-'' \<or> c = CHR ''+''")
    case True
    with assms s have "r \<noteq> []" by auto
    with True s show ?thesis
      by (auto simp: isListItemText_def startsWhite_append)
  next
    case False
    have nd: "\<not> isDigit (CHR ''['')" by (simp add: isDigit_def)
    have t: "takeWhile isDigit (s @ x) = takeWhile isDigit s"
      using assms nd by (simp add: takeWhile_append1)
    have d: "dropWhile isDigit (s @ x) = dropWhile isDigit s @ x"
      using assms nd by (simp add: dropWhile_append1)
    have inD: "CHR ''['' \<in> set (dropWhile isDigit s)"
    proof -
      have "set s = set (takeWhile isDigit s) \<union> set (dropWhile isDigit s)"
        by (metis set_append takeWhile_dropWhile_id)
      moreover have "CHR ''['' \<notin> set (takeWhile isDigit s)"
        using nd by (auto dest: set_takeWhileD)
      ultimately show ?thesis using assms by auto
    qed
    then obtain e r' where dr: "dropWhile isDigit s = e # r'"
      by (cases "dropWhile isDigit s") auto
    have sw: "(e = CHR ''.'' \<or> e = CHR '')'') \<and> startsWhite (r' @ x) \<longleftrightarrow>
          (e = CHR ''.'' \<or> e = CHR '')'') \<and> startsWhite r'"
    proof (cases "e = CHR ''.'' \<or> e = CHR '')''")
      case True
      with inD dr have "r' \<noteq> []" by auto
      then show ?thesis by (simp add: startsWhite_append)
    next
      case False
      then show ?thesis by simp
    qed
    have L: "isListItemText (s @ x) =
             (takeWhile isDigit (s @ x) \<noteq> [] \<and>
              (case dropWhile isDigit (s @ x) of
                 [] \<Rightarrow> False
               | d # r' \<Rightarrow> (d = CHR ''.'' \<or> d = CHR '')'') \<and> startsWhite r'))"
      using False s by (simp add: isListItemText_def)
    have R: "isListItemText s =
             (takeWhile isDigit s \<noteq> [] \<and>
              (case dropWhile isDigit s of
                 [] \<Rightarrow> False
               | d # r' \<Rightarrow> (d = CHR ''.'' \<or> d = CHR '')'') \<and> startsWhite r'))"
      using False s by (simp add: isListItemText_def)
    have "isListItemText (s @ x) =
          (takeWhile isDigit s \<noteq> [] \<and> (e = CHR ''.'' \<or> e = CHR '')'') \<and> startsWhite (r' @ x))"
      unfolding L t d dr by simp
    moreover have "isListItemText s =
          (takeWhile isDigit s \<noteq> [] \<and> (e = CHR ''.'' \<or> e = CHR '')'') \<and> startsWhite r')"
      unfolding R dr by simp
    ultimately show ?thesis using sw by blast
  qed
qed

lemma isListItemText_head:
  assumes "h \<noteq> []" "\<not> isWhite (last h)" "CHR ''['' \<in> set h"
  shows "isListItemText (trim (h @ x)) = isListItemText (trimStart h)"
proof -
  from trim_head [OF assms(1,2)] obtain x' where t: "trim (h @ x) = trimStart h @ x'" by blast
  have "\<not> isWhite (CHR ''['')" by (simp add: isWhite_def)
  with assms(3) have "CHR ''['' \<in> set (trimStart h)"
    unfolding trimStart_def by (induction h) auto
  then show ?thesis unfolding t by (rule isListItemText_prefix)
qed

lemma walkBlock_cong:
  "(\<And>j. i \<le> j \<Longrightarrow> g j = g' j) \<Longrightarrow>
   walkBlock g n sl si i acc = walkBlock g' n sl si i acc"
proof (induction g n sl si i acc rule: walkBlock.induct)
  case (1 getLine totalLines sl si i e ls)
  have gi: "getLine i = g' i" using "1.prems" by simp
  show ?case
  proof (cases "i < totalLines \<and> lineContinues sl si (getLine i)")
    case True
    then have "walkBlock getLine totalLines sl si (Suc i) (i, ls @ [stripDexComments (getLine i)]) =
               walkBlock g' totalLines sl si (Suc i) (i, ls @ [stripDexComments (getLine i)])"
      using "1.prems" by (intro "1.IH") auto
    with True gi show ?thesis
      by (subst walkBlock.simps, subst (2) walkBlock.simps) simp
  next
    case False
    with gi show ?thesis
      by (subst walkBlock.simps, subst (2) walkBlock.simps) auto
  qed
qed

lemma detectContentBlock_rewritten:
  assumes "n < length doc"
    and "searchNonWhite line' = searchNonWhite (doc ! n)"
    and "isListItemText (trim line') = isListItemText (trim (doc ! n))"
    and "trim (stripDexComments line') = trim (stripDexComments (doc ! n))"
  shows "endLine (detectContentBlock (\<lambda>i. doc[n := line'] ! i) (length (doc[n := line'])) n) =
           endLine (detectContentBlock (\<lambda>i. doc ! i) (length doc) n) \<and>
         contentLines (detectContentBlock (\<lambda>i. doc[n := line'] ! i) (length (doc[n := line'])) n) =
           contentLines (detectContentBlock (\<lambda>i. doc ! i) (length doc) n)"
proof -
  have w: "walkBlock (\<lambda>i. doc[n := line'] ! i) (length doc) sl si (Suc n) acc =
           walkBlock (\<lambda>i. doc ! i) (length doc) sl si (Suc n) acc" for sl si acc
    by (rule walkBlock_cong) simp
  have s: "doc[n := line'] ! n = line'" using assms(1) by simp
  show ?thesis
    unfolding detectContentBlock_def Let_def
    by (simp add: s w assms(2,3,4) split: prod.splits)
qed

subsection \<open>The hash token\<close>

lemma digit36_plain: "0 \<le> d \<Longrightarrow> d < 36 \<Longrightarrow> isIdChar (digit36 d)"
proof -
  assume "0 \<le> d" "d < 36"
  then have "nat d < length ''0123456789abcdefghijklmnopqrstuvwxyz''" by simp
  then have "digit36 d \<in> set ''0123456789abcdefghijklmnopqrstuvwxyz''"
    unfolding digit36_def by (rule nth_mem)
  then show ?thesis by (auto simp: isIdChar_def)
qed

lemma toString36_plain: "0 \<le> n \<Longrightarrow> plainId (toString36 n)"
proof (induction n rule: toString36.induct)
  case (1 n)
  show ?case
  proof (cases "n < 36")
    case True
    with "1.prems" show ?thesis
      by (subst toString36.simps) (simp add: plainId_def digit36_plain)
  next
    case False
    with "1.prems" have "plainId (toString36 (n div 36))"
      by (intro "1.IH") auto
    moreover have "isIdChar (digit36 (n mod 36))"
      by (rule digit36_plain) auto
    ultimately show ?thesis using False
      by (subst toString36.simps) (simp add: plainId_def)
  qed
qed

lemma simpleHash_plain: "plainId (simpleHash s)"
  unfolding simpleHash_def by (rule toString36_plain) simp

lemma dexCommentAt_written:
  assumes "plainId cid" "plainId mid" "plainId h"
  shows "dexCommentAt (dexComment cid mid h @ t) = Some t"
proof -
  have "CHR ''%'' \<notin> set (''contact-id='' @ cid @ '',memo-id='' @ mid @ '',hash='' @ h)"
    using assms by (auto dest: plainId_no_percent)
  from dexCommentAt_intro [OF this, of t] show ?thesis
    by (simp add: dexComment_def)
qed

lemma detect_memo_fields:
  "hasExistingMemo (detectContentBlock g n i) =
     (case matchMemoId (g i) of Some (_, Some _, _) \<Rightarrow> True | _ \<Rightarrow> False)"
  "storedHash (detectContentBlock g n i) =
     (case matchMemoId (g i) of Some (_, _, g3) \<Rightarrow> g3 | None \<Rightarrow> None)"
  by (simp_all add: detectContentBlock_def Let_def split: prod.splits)

text \<open>
  The start line before and after a rewrite that replaces a directly attached comment:
  same indentation, same list-item class, same text once the comments are removed, and
  the new comment is the one that is read back.
\<close>

lemma rewritten_start_line:
  assumes ids: "plainId cid" "plainId mid" "plainId h"
    and site: "annotationSite cid line = Some (head, old, tail)"
    and first: "\<not> hasDoublePercent head"
    and att: "dexCommentAt old = Some []"
  shows "searchNonWhite (rewriteLine cid mid h line) = searchNonWhite line"
    and "isListItemText (trim (rewriteLine cid mid h line)) = isListItemText (trim line)"
    and "stripDexComments (rewriteLine cid mid h line) = stripDexComments line"
    and "matchMemoId (rewriteLine cid mid h line) = Some (Some cid, Some mid, Some h)"
proof -
  have one: "old \<noteq> []" using att by (auto simp: dexCommentAt_def)
  have l: "line = head @ old @ tail"
    using annotationSite_replace [OF site one] by blast
  have l': "rewriteLine cid mid h line = head @ dexComment cid mid h @ tail"
    by (simp add: rewriteLine_site site)
  have hd: "head \<noteq> []" "last head \<noteq> CHR ''%''" "CHR ''['' \<in> set head" "\<not> isWhite (last head)"
    using annotationSite_head [OF site] by blast+
  show "searchNonWhite (rewriteLine cid mid h line) = searchNonWhite line"
    unfolding l' by (subst l) (simp add: searchNonWhite_head hd)
  show "isListItemText (trim (rewriteLine cid mid h line)) = isListItemText (trim line)"
    unfolding l' by (subst l) (simp add: isListItemText_head hd)
  have "stripDexComments (head @ old @ tail) = head @ stripDexComments tail"
    using first hd dexCommentAt_extend [OF att, of tail]
    by (simp add: stripDexComments_skip_head stripDexComments_comment)
  moreover have "stripDexComments (head @ dexComment cid mid h @ tail) = head @ stripDexComments tail"
    using first hd dexCommentAt_written [OF ids, of tail]
    by (simp add: stripDexComments_skip_head stripDexComments_comment)
  ultimately show "stripDexComments (rewriteLine cid mid h line) = stripDexComments line"
    unfolding l' by (subst l) simp
  have "matchMemoId (head @ commentWith (Some cid) (Some mid) (Some h) @ tail) =
        Some (Some cid, Some mid, Some h)"
    using ids first hd by (intro matchMemoId_comment) (auto dest: plainId_validField)
  then show "matchMemoId (rewriteLine cid mid h line) = Some (Some cid, Some mid, Some h)"
    by (simp add: l' dexComment_commentWith)
qed

section \<open>The claims about the sync and the classifier\<close>

text \<open>
  C1. A block whose start-line comment carries a memo id and the hash of the block's
  current content is classified as synced, and a sync of it should return the memo id
  without a remote call. \<open>syncContactMemo\<close> looks for the stored hash as
  \<open>data-hash="..."\<close> on the block's last line, not in the comment: on the document that
  its own first sync wrote, it sends an update to the remote service again.
\<close>

theorem sync_of_synced_block_calls_remote:
  "document (syncContactMemo (contextWith acceptingApi) jane 0 freshDoc True) = syncedDoc \<and>
   map_option be_syncStatus (findContentBlockEnd syncedDoc 1) = Some Synced \<and>
   syncContactMemo (contextWith acceptingApi) jane 0 syncedDoc True =
     \<lparr> outcome = Inr ''m1'', document = syncedDoc,
       remoteCalls = [UpdateNoteCall ''m1'' ''c1''
          (''Met [Jane Doe](https://getdex.com/appv3/contacts/details/c1) today'' @
           CHR 0x0A # ''  discussed Q3 budget'')],
       notices = [] \<rparr>"
proof -
  have 1: "document (syncContactMemo (contextWith acceptingApi) jane 0 freshDoc True) = syncedDoc"
    by code_simp
  have 2: "map_option be_syncStatus (findContentBlockEnd syncedDoc 1) = Some Synced"
    by code_simp
  have 3: "syncContactMemo (contextWith acceptingApi) jane 0 syncedDoc True =
     \<lparr> outcome = Inr ''m1'', document = syncedDoc,
       remoteCalls = [UpdateNoteCall ''m1'' ''c1''
          (''Met [Jane Doe](https://getdex.com/appv3/contacts/details/c1) today'' @
           CHR 0x0A # ''  discussed Q3 budget'')],
       notices = [] \<rparr>"
    by code_simp
  from 1 2 3 show ?thesis by blast
qed

text \<open>
  C3, as stated, fails for the status-bar counter: a block with a memo id and no stored
  hash is needs-resync by rule 2 and for the inline button, and \<open>countMemos\<close> counts
  it as synced.
\<close>

theorem counter_counts_legacy_block_as_synced:
  "countMemos legacyDoc = (1, 1) \<and>
   map_option be_syncStatus (findContentBlockEnd legacyDoc 1) = Some NeedsResync \<and>
   classify True (Some ''m1'') None ''h1'' = NeedsResync"
proof -
  have 1: "countMemos legacyDoc = (1, 1)" by code_simp
  have 2: "map_option be_syncStatus (findContentBlockEnd legacyDoc 1) = Some NeedsResync" by code_simp
  have 3: "classify True (Some ''m1'') None ''h1'' = NeedsResync" by (simp add: classify_def)
  from 1 2 3 show ?thesis by blast
qed

text \<open>
  C3, amended. The inline sync-button classifier follows the four ordered rules. The
  status-bar counter counts a block as synced when the four rules give synced for the
  hash it computes, and also when the block has a memo id and no stored hash.
\<close>

theorem classification_points:
  "(findContentBlockEnd doc n = Some b \<longrightarrow>
      (let r = detectContentBlock (\<lambda>i. doc ! i) (length doc) (n - 1)
       in be_syncStatus b = classify (hasExistingMemo r) (memoId r) (storedHash r) (be_contentHash b))) \<and>
   (countsAsSynced editor i \<longleftrightarrow>
      (let r = detectContentBlock (\<lambda>k. editor ! k) (length editor) i;
           currentHash = simpleHash (trim (stripDexComments (joinLines (contentLines r))))
       in classify (hasExistingMemo r) (memoId r) (storedHash r) currentHash = Synced \<or>
          (hasExistingMemo r \<and> storedHash r = None)))"
proof
  show "findContentBlockEnd doc n = Some b \<longrightarrow>
      (let r = detectContentBlock (\<lambda>i. doc ! i) (length doc) (n - 1)
       in be_syncStatus b = classify (hasExistingMemo r) (memoId r) (storedHash r) (be_contentHash b))"
    using hasExistingMemo_iff [of "\<lambda>i. doc ! i" "length doc" "n - 1"]
    by (auto simp: findContentBlockEnd_def Let_def syncStatusOf_def classify_def split: if_splits)
next
  define r where "r = detectContentBlock (\<lambda>k. editor ! k) (length editor) i"
  define cur where "cur = simpleHash (trim (stripDexComments (joinLines (contentLines r))))"
  have he: "hasExistingMemo r \<longleftrightarrow> memoId r \<noteq> None"
    unfolding r_def by (rule hasExistingMemo_iff)
  have sh: "storedHash r = (case matchMemoId (editor ! i) of Some (_, _, g3) \<Rightarrow> g3 | None \<Rightarrow> None)"
    unfolding r_def by (simp add: detectContentBlock_def Let_def split: prod.splits)
  have hm: "hasExistingMemo r \<Longrightarrow> matchMemoId (editor ! i) \<noteq> None"
    unfolding r_def by (auto simp: detectContentBlock_def Let_def split: prod.splits option.splits)
  have cs: "countsAsSynced editor i \<longleftrightarrow>
      hasExistingMemo r \<and>
      (case matchMemoId (editor ! i) of
         None \<Rightarrow> False
       | Some (_, _, g3) \<Rightarrow> (case g3 of None \<Rightarrow> [] | Some h \<Rightarrow> h) = [] \<or>
                            (case g3 of None \<Rightarrow> [] | Some h \<Rightarrow> h) = cur)"
    unfolding countsAsSynced_def getContentBlock_def r_def cur_def
    by (simp add: Let_def split: option.splits)
  have "countsAsSynced editor i \<longleftrightarrow>
        classify (hasExistingMemo r) (memoId r) (storedHash r) cur = Synced \<or>
        (hasExistingMemo r \<and> storedHash r = None)"
  proof (cases "hasExistingMemo r")
    case False
    then show ?thesis by (simp add: cs classify_def)
  next
    case True
    with hm obtain g1 g2 g3 where m: "matchMemoId (editor ! i) = Some (g1, g2, g3)"
      by (cases "matchMemoId (editor ! i)") auto
    show ?thesis
    proof (cases g3)
      case None
      with True m he show ?thesis by (simp add: cs sh classify_def)
    next
      case (Some h)
      with m have "h \<noteq> []" by (auto dest: matchMemoId_hash_nonempty)
      with True m he Some show ?thesis by (auto simp: cs sh classify_def)
    qed
  qed
  then show "countsAsSynced editor i \<longleftrightarrow>
      (let r = detectContentBlock (\<lambda>k. editor ! k) (length editor) i;
           currentHash = simpleHash (trim (stripDexComments (joinLines (contentLines r))))
       in classify (hasExistingMemo r) (memoId r) (storedHash r) currentHash = Synced \<or>
          (hasExistingMemo r \<and> storedHash r = None))"
    unfolding r_def cur_def Let_def .
qed

text \<open>
  The amended C3 on the document with a memo id and no hash.
\<close>

theorem classification_points_witness:
  "findContentBlockEnd legacyDoc 1 =
     Some \<lparr> be_endLine = 1, be_hasExistingMemo = True, be_syncStatus = NeedsResync,
            be_contentHash = ''divgp4'' \<rparr> \<and>
   classify True (Some ''m1'') None ''divgp4'' = NeedsResync \<and>
   countsAsSynced legacyDoc 0"
proof -
  let ?b = "\<lparr> be_endLine = 1, be_hasExistingMemo = True, be_syncStatus = NeedsResync,
            be_contentHash = ''divgp4'' \<rparr>"
  have f: "findContentBlockEnd legacyDoc 1 = Some ?b" by code_simp
  have h: "hasExistingMemo (detectContentBlock (\<lambda>i. legacyDoc ! i) (length legacyDoc) (1 - 1)) = True"
    by code_simp
  have m: "memoId (detectContentBlock (\<lambda>i. legacyDoc ! i) (length legacyDoc) (1 - 1)) = Some ''m1''"
    by code_simp
  have s: "storedHash (detectContentBlock (\<lambda>i. legacyDoc ! i) (length legacyDoc) (1 - 1)) = None"
    by code_simp
  have h0: "hasExistingMemo (detectContentBlock (\<lambda>i. legacyDoc ! i) (length legacyDoc) 0) = True"
    by code_simp
  have s0: "storedHash (detectContentBlock (\<lambda>i. legacyDoc ! i) (length legacyDoc) 0) = None"
    by code_simp
  note T = classification_points [of legacyDoc 1 ?b legacyDoc 0]
  have "be_syncStatus ?b = classify True (Some ''m1'') None (be_contentHash ?b)"
    using T [THEN conjunct1, THEN mp, OF f] unfolding Let_def h m s .
  moreover have "countsAsSynced legacyDoc 0"
    using T [THEN conjunct2] unfolding Let_def h0 s0 by simp
  ultimately show ?thesis using f by simp
qed

text \<open>
  C5. If the remote call that \<open>syncContactMemo\<close> makes is rejected, the error reaches
  the caller and the document is the one it was given: no line has been written.
\<close>

theorem remote_failure_is_atomic:
  assumes "apiClient ctx = Some api"
    and "remoteCalls (syncContactMemo ctx contact lineNumber editor silent) = [call]"
    and "performCall api call = Inl msg"
  shows "outcome (syncContactMemo ctx contact lineNumber editor silent) = Inl (RemoteError msg) \<and>
         document (syncContactMemo ctx contact lineNumber editor silent) = editor"
proof -
  from assms(2) syncContactMemo_calls_cases [of ctx contact lineNumber editor silent]
  obtain api' where a: "apiClient ctx = Some api'" "lineNumber < length editor"
      "\<not> contentUnchanged editor (getContentBlock editor lineNumber)"
    by auto
  with assms(1) have a1: "apiClient ctx = Some api" by simp
  have "call = plannedCall ctx contact (getContentBlock editor lineNumber)"
    using syncContactMemo_proceeds(1) [OF a1 a(2,3), of contact silent] assms(2) by simp
  with assms(3) show ?thesis
    using syncContactMemo_proceeds(2) [OF a1 a(2,3)] by simp
qed

text \<open>
  C5 on a service that rejects every call.
\<close>

theorem remote_failure_is_atomic_witness:
  "apiClient (contextWith failingApi) = Some failingApi \<and>
   remoteCalls (syncContactMemo (contextWith failingApi) jane 0 freshDoc False) =
     [CreateNoteCall ''c1''
        (''Met [Jane Doe](https://getdex.com/appv3/contacts/details/c1) today'' @
         CHR 0x0A # ''  discussed Q3 budget'')] \<and>
   performCall failingApi
     (CreateNoteCall ''c1''
        (''Met [Jane Doe](https://getdex.com/appv3/contacts/details/c1) today'' @
         CHR 0x0A # ''  discussed Q3 budget'')) = Inl ''Dex API error: 500'' \<and>
   outcome (syncContactMemo (contextWith failingApi) jane 0 freshDoc False) =
     Inl (RemoteError ''Dex API error: 500'') \<and>
   document (syncContactMemo (contextWith failingApi) jane 0 freshDoc False) = freshDoc"
proof -
  have a: "apiClient (contextWith failingApi) = Some failingApi"
    by (simp add: contextWith_def)
  have c: "remoteCalls (syncContactMemo (contextWith failingApi) jane 0 freshDoc False) =
     [CreateNoteCall ''c1''
        (''Met [Jane Doe](https://getdex.com/appv3/contacts/details/c1) today'' @
         CHR 0x0A # ''  discussed Q3 budget'')]"
    by code_simp
  have p: "performCall failingApi
     (CreateNoteCall ''c1''
        (''Met [Jane Doe](https://getdex.com/appv3/contacts/details/c1) today'' @
         CHR 0x0A # ''  discussed Q3 budget'')) = Inl ''Dex API error: 500''"
    by (simp add: performCall_def failingApi_def)
  show ?thesis
    using remote_failure_is_atomic [OF a c p] a c p by blast
qed







section \<open>The claims about the comment codec\<close>

text \<open>
  C8, as stated, fails when a field is malformed: in
  \<open>%%dex:contact-id=c1,memo-id=,hash=h1%%\<close> the contact id and the hash are present and
  well-formed, and the pattern does not match at all, so none of them is extracted.
\<close>

theorem malformed_field_hides_the_others:
  "matchMemoId ''%%dex:contact-id=c1,memo-id=,hash=h1%%'' = None"
  by code_simp

text \<open>
  C8, amended. For every comment built in the written order from any subset of the
  three fields, each present value non-empty and free of \<open>,\<close>, \<open>%\<close> and \<open>)\<close>, and with no
  \<open>%%\<close> earlier on the line, parsing extracts exactly the fields that are present.
  (\<open>matchMemoId\<close> is a total function into an option: parsing never raises.)
\<close>

theorem permissive_field_parsing:
  assumes "case c of None \<Rightarrow> True | Some x \<Rightarrow> validField x"
    and "case m of None \<Rightarrow> True | Some y \<Rightarrow> validField y"
    and "case h of None \<Rightarrow> True | Some z \<Rightarrow> validField z"
    and "\<not> hasDoublePercent pre" and "pre = [] \<or> last pre \<noteq> CHR ''%''"
  shows "matchMemoId (pre @ commentWith c m h @ post) = Some (c, m, h)"
  using assms by (intro matchMemoId_comment) auto

text \<open>
  The amended C8 on a comment with a contact id and a hash and no memo id.
\<close>

theorem permissive_field_parsing_witness:
  "validField ''c1'' \<and> validField ''h1'' \<and> \<not> hasDoublePercent ''[[Jane]]'' \<and>
   last ''[[Jane]]'' \<noteq> CHR ''%'' \<and>
   matchMemoId (''[[Jane]]'' @ commentWith (Some ''c1'') None (Some ''h1'') @ '' x'') =
     Some (Some ''c1'', None, Some ''h1'') \<and>
   ''[[Jane]]'' @ commentWith (Some ''c1'') None (Some ''h1'') @ '' x'' =
     ''[[Jane]]%%dex:contact-id=c1,hash=h1%% x''"
proof -
  have 1: "case Some ''c1'' of None \<Rightarrow> True | Some x \<Rightarrow> validField x"
    by (simp add: validField_def isFieldChar_def)
  have 2: "case (None :: string option) of None \<Rightarrow> True | Some x \<Rightarrow> validField x"
    by simp
  have 3: "case Some ''h1'' of None \<Rightarrow> True | Some x \<Rightarrow> validField x"
    by (simp add: validField_def isFieldChar_def)
  have 4: "\<not> hasDoublePercent ''[[Jane]]''" by simp
  have 5: "''[[Jane]]'' = [] \<or> last ''[[Jane]]'' \<noteq> CHR ''%''" by simp
  have 6: "''[[Jane]]'' @ commentWith (Some ''c1'') None (Some ''h1'') @ '' x'' =
     ''[[Jane]]%%dex:contact-id=c1,hash=h1%% x''"
    by (simp add: commentWith_def)
  show ?thesis
    using permissive_field_parsing [OF 1 2 3 4 5, of "'' x''"] 1 3 4 5 6 by simp
qed

text \<open>
  C6, as stated, fails on a line that carries an earlier comment: the comment for
  contact \<open>c1\<close> is written after its link, and parsing the line reads the first comment,
  which belongs to another mention.
\<close>

theorem earlier_comment_is_read_back:
  "matchMemoId (rewriteLine ''c1'' ''m9'' ''hh''
     ''[[Bob]]%%dex:contact-id=b1,memo-id=mb,hash=hb%% [Al](https://getdex.com/appv3/contacts/details/c1)'') =
   Some (Some ''b1'', Some ''mb'', Some ''hb'')"
  by code_simp

text \<open>
  C6, amended. For ids and hash that are non-empty and made of letters, digits, \<open>-\<close>
  and \<open>_\<close>: when the rewrite finds the contact's link on the line and no \<open>%%\<close> occurs
  before the end of that link, parsing the rewritten line recovers exactly the triple
  that was written.
\<close>

theorem annotation_round_trip:
  assumes "plainId cid" "plainId mid" "plainId h"
    and "annotationSite cid line = Some (head, old, tail)"
    and "\<not> hasDoublePercent head"
  shows "matchMemoId (rewriteLine cid mid h line) = Some (Some cid, Some mid, Some h)"
proof -
  have hd: "head = [] \<or> last head \<noteq> CHR ''%''"
    using annotationSite_head [OF assms(4)] by simp
  have "matchMemoId (head @ commentWith (Some cid) (Some mid) (Some h) @ tail) =
        Some (Some cid, Some mid, Some h)"
    using assms(1-3,5) hd by (intro matchMemoId_comment) (auto dest: plainId_validField)
  then show ?thesis
    by (simp add: rewriteLine_site assms(4) dexComment_commentWith)
qed

text \<open>
  The amended C6 on the start line of a freshly inserted mention.
\<close>

theorem annotation_round_trip_witness:
  "plainId ''c1'' \<and> plainId ''m1'' \<and> plainId ''fgt8bi'' \<and>
   annotationSite ''c1'' (freshDoc ! 0) =
     Some (''Met [Jane Doe](https://getdex.com/appv3/contacts/details/c1)'',
           ''%%dex:contact-id=c1%%'', '' today'') \<and>
   \<not> hasDoublePercent ''Met [Jane Doe](https://getdex.com/appv3/contacts/details/c1)'' \<and>
   matchMemoId (rewriteLine ''c1'' ''m1'' ''fgt8bi'' (freshDoc ! 0)) =
     Some (Some ''c1'', Some ''m1'', Some ''fgt8bi'')"
proof -
  have 1: "plainId ''c1''" by code_simp
  have 2: "plainId ''m1''" by code_simp
  have 3: "plainId ''fgt8bi''" by code_simp
  have 4: "annotationSite ''c1'' (freshDoc ! 0) =
     Some (''Met [Jane Doe](https://getdex.com/appv3/contacts/details/c1)'',
           ''%%dex:contact-id=c1%%'', '' today'')"
    by code_simp
  have 5: "\<not> hasDoublePercent ''Met [Jane Doe](https://getdex.com/appv3/contacts/details/c1)''"
    by code_simp
  show ?thesis
    using annotation_round_trip [OF 1 2 3 4 5] 1 2 3 4 5 by simp
qed




section \<open>The claim about the state after a sync\<close>

text \<open>
  C2, as stated, fails after a successful sync in two situations the code provides for:
  on a start line without any link the sync writes nothing, so the block stays
  not-synced; and when the contact's mention is the second on its line, the classifier
  reads the first comment, not the one just written.
\<close>

theorem unlinked_or_second_mention_not_synced:
  "outcome (syncContactMemo (contextWith acceptingApi) jane 0 plainDoc True) = Inr ''m1'' \<and>
   map_option be_syncStatus
     (findContentBlockEnd (document (syncContactMemo (contextWith acceptingApi) jane 0 plainDoc True)) 1) =
     Some NotSynced \<and>
   outcome (syncContactMemo (contextWith acceptingApi) jane 0 secondMentionDoc True) = Inr ''mb'' \<and>
   document (syncContactMemo (contextWith acceptingApi) jane 0 secondMentionDoc True) =
     [''[[Bob]]%%dex:contact-id=b1,memo-id=mb,hash=hb%% [Jane Doe](https://getdex.com/appv3/contacts/details/c1)%%dex:contact-id=c1,memo-id=mb,hash=3yaa0k%%''] \<and>
   map_option be_syncStatus
     (findContentBlockEnd (document (syncContactMemo (contextWith acceptingApi) jane 0 secondMentionDoc True)) 1) =
     Some NeedsResync"
proof -
  have 1: "outcome (syncContactMemo (contextWith acceptingApi) jane 0 plainDoc True) = Inr ''m1''"
    by code_simp
  have 2: "map_option be_syncStatus
     (findContentBlockEnd (document (syncContactMemo (contextWith acceptingApi) jane 0 plainDoc True)) 1) =
     Some NotSynced"
    by code_simp
  have 3: "outcome (syncContactMemo (contextWith acceptingApi) jane 0 secondMentionDoc True) = Inr ''mb''"
    by code_simp
  have 4: "document (syncContactMemo (contextWith acceptingApi) jane 0 secondMentionDoc True) =
     [''[[Bob]]%%dex:contact-id=b1,memo-id=mb,hash=hb%% [Jane Doe](https://getdex.com/appv3/contacts/details/c1)%%dex:contact-id=c1,memo-id=mb,hash=3yaa0k%%'']"
    by code_simp
  have 5: "map_option be_syncStatus
     (findContentBlockEnd (document (syncContactMemo (contextWith acceptingApi) jane 0 secondMentionDoc True)) 1) =
     Some NeedsResync"
    by code_simp
  from 1 2 3 4 5 show ?thesis by blast
qed

text \<open>
  C2, amended. The hash is computed over comment-stripped text. After a successful
  sync that replaces the comment directly attached to the contact's link, with no \<open>%%\<close>
  earlier on the start line, plain ids, and a block whose stripped content holds no
  further comment, the detector and classifier run on the rewritten document give
  synced: the stored hash equals the recomputed one.
\<close>

theorem sync_then_classify_synced:
  assumes api: "apiClient ctx = Some api" and rng: "lineNumber < length editor"
    and go: "\<not> contentUnchanged editor (getContentBlock editor lineNumber)"
    and ok: "performCall api (plannedCall ctx contact (getContentBlock editor lineNumber)) = Inr result"
    and ids: "plainId (contact_id contact)" "plainId (note_id result)"
    and site: "annotationSite (contact_id contact) (editor ! lineNumber) = Some (head, old, tail)"
    and first: "\<not> hasDoublePercent head"
    and att: "dexCommentAt old = Some []"
    and clean: "stripDexComments (block_content (getContentBlock editor lineNumber)) =
                block_content (getContentBlock editor lineNumber)"
  shows "map_option be_syncStatus
           (findContentBlockEnd (document (syncContactMemo ctx contact lineNumber editor silent))
              (Suc lineNumber)) = Some Synced"
proof -
  define H where "H = simpleHash (trim (stripDexComments (block_content (getContentBlock editor lineNumber))))"
  define line' where "line' = rewriteLine (contact_id contact) (note_id result) H (editor ! lineNumber)"
  define doc' where "doc' = editor[lineNumber := line']"
  have doc: "document (syncContactMemo ctx contact lineNumber editor silent) = doc'"
    using syncContactMemo_proceeds(3) [OF api rng go ok, of silent]
    by (simp add: doc'_def line'_def H_def)
  have hp: "plainId H" unfolding H_def by (rule simpleHash_plain)
  note rw = rewritten_start_line [OF ids hp site first att, folded line'_def]
  have same: "endLine (detectContentBlock (\<lambda>i. doc' ! i) (length doc') lineNumber) =
           endLine (detectContentBlock (\<lambda>i. editor ! i) (length editor) lineNumber) \<and>
         contentLines (detectContentBlock (\<lambda>i. doc' ! i) (length doc') lineNumber) =
           contentLines (detectContentBlock (\<lambda>i. editor ! i) (length editor) lineNumber)"
    unfolding doc'_def using rng rw(1,2,3)
    by (intro detectContentBlock_rewritten) simp_all
  have at: "doc' ! lineNumber = line'" using rng by (simp add: doc'_def)
  have he: "hasExistingMemo (detectContentBlock (\<lambda>i. doc' ! i) (length doc') lineNumber)"
    and sh: "storedHash (detectContentBlock (\<lambda>i. doc' ! i) (length doc') lineNumber) = Some H"
    by (simp_all add: detect_memo_fields at rw(4))
  have bc: "block_content (getContentBlock editor lineNumber) =
            joinLines (contentLines (detectContentBlock (\<lambda>i. editor ! i) (length editor) lineNumber))"
    by (simp add: getContentBlock_def Let_def)
  have cur: "simpleHash (trim (joinLines
               (contentLines (detectContentBlock (\<lambda>i. doc' ! i) (length doc') lineNumber)))) = H"
    using same clean by (simp add: H_def bc)
  have len: "length doc' = length editor" by (simp add: doc'_def)
  have "findContentBlockEnd doc' (Suc lineNumber) \<noteq> None"
    using rng by (simp add: findContentBlockEnd_def len Let_def)
  moreover have "be_syncStatus b = Synced" if "findContentBlockEnd doc' (Suc lineNumber) = Some b" for b
    using that he sh cur rng
    by (auto simp: findContentBlockEnd_def Let_def syncStatusOf_def len split: if_splits)
  ultimately show ?thesis unfolding doc by (cases "findContentBlockEnd doc' (Suc lineNumber)") auto
qed

text \<open>
  The amended C2 on a freshly inserted mention.
\<close>

theorem sync_then_classify_synced_witness:
  "apiClient (contextWith acceptingApi) = Some acceptingApi \<and> 0 < length freshDoc \<and>
   \<not> contentUnchanged freshDoc (getContentBlock freshDoc 0) \<and>
   performCall acceptingApi (plannedCall (contextWith acceptingApi) jane (getContentBlock freshDoc 0)) =
     Inr \<lparr> note_id = ''m1'', note_success = True, note_wasUpdated = False \<rparr> \<and>
   plainId (contact_id jane) \<and> plainId ''m1'' \<and>
   annotationSite (contact_id jane) (freshDoc ! 0) =
     Some (''Met [Jane Doe](https://getdex.com/appv3/contacts/details/c1)'',
           ''%%dex:contact-id=c1%%'', '' today'') \<and>
   \<not> hasDoublePercent ''Met [Jane Doe](https://getdex.com/appv3/contacts/details/c1)'' \<and>
   dexCommentAt ''%%dex:contact-id=c1%%'' = Some [] \<and>
   stripDexComments (block_content (getContentBlock freshDoc 0)) =
     block_content (getContentBlock freshDoc 0) \<and>
   map_option be_syncStatus
     (findContentBlockEnd (document (syncContactMemo (contextWith acceptingApi) jane 0 freshDoc True))
        (Suc 0)) = Some Synced"
proof -
  let ?r = "\<lparr> note_id = ''m1'', note_success = True, note_wasUpdated = False \<rparr>"
  have 1: "apiClient (contextWith acceptingApi) = Some acceptingApi"
    by (simp add: contextWith_def)
  have 2: "0 < length freshDoc" by (simp add: freshDoc_def)
  have 3: "\<not> contentUnchanged freshDoc (getContentBlock freshDoc 0)" by code_simp
  have 4: "performCall acceptingApi
             (plannedCall (contextWith acceptingApi) jane (getContentBlock freshDoc 0)) = Inr ?r"
    by code_simp
  have 5: "plainId (contact_id jane)" by code_simp
  have 6: "plainId (note_id ?r)" by code_simp
  have 7: "annotationSite (contact_id jane) (freshDoc ! 0) =
     Some (''Met [Jane Doe](https://getdex.com/appv3/contacts/details/c1)'',
           ''%%dex:contact-id=c1%%'', '' today'')"
    by code_simp
  have 8: "\<not> hasDoublePercent ''Met [Jane Doe](https://getdex.com/appv3/contacts/details/c1)''"
    by code_simp
  have 9: "dexCommentAt ''%%dex:contact-id=c1%%'' = Some []" by code_simp
  have 10: "stripDexComments (block_content (getContentBlock freshDoc 0)) =
     block_content (getContentBlock freshDoc 0)"
    by code_simp
  have m1: "plainId ''m1''" using 6 by simp
  note T = sync_then_classify_synced [OF 1 2 3 4 5 6 7 8 9 10, of True]
  from 1 2 3 4 5 m1 7 8 9 10 T show ?thesis by (intro conjI)
qed

end
